(* ===== verification/Prelude.thy ===== *)
theory Prelude
  imports Main "HOL-Library.Word" "HOL-Library.Char_ord" "HOL-Library.List_Lexorder"
begin

text \<open>
  Shared vocabulary of the development.

  Go values are represented as follows.  A string is the list of its
  characters (\<^typ>\<open>string\<close>), read as runes in the Latin-1 range.  A map from
  strings is an association list read with \<^term>\<open>map_of\<close>: a nil map and an
  empty map are both \<open>[]\<close>, and a read of an absent key gives the zero value
  (\<open>go_get\<close>).  A slice of pointers is a list of options, nil being
  \<^term>\<open>None\<close>.  A function that returns an error returns a sum whose left
  summand is the error.  A 32-bit float is its IEEE-754 bit pattern.

  The collections \<open>go_simps\<close> (definitions of the small Go helpers) and
  \<open>inv_intros\<close> (invariant preservation) are filled by the component theories.
\<close>

named_theorems go_simps "definitions of the Go library helpers"
named_theorems inv_intros "invariant preservation, one rule per operation"

section \<open>Types\<close>

type_synonym gomap = "(string \<times> string) list"
type_synonym float32 = "32 word"
type_synonym int64 = int
type_synonym int32 = int

section \<open>Strings\<close>

text \<open>\<open>unicode.IsSpace\<close> restricted to Latin-1, \<open>strings.TrimSpace\<close>,
  \<open>strings.Trim\<close> with a one-character cut set, \<open>strings.ToLower\<close>,
  \<open>strings.Join\<close>, \<open>strings.HasPrefix\<close> and \<open>strings.TrimPrefix\<close>.\<close>

definition is_space :: "char \<Rightarrow> bool" where
  "is_space c = (let n = (of_char c :: nat) in (9 \<le> n \<and> n \<le> 13) \<or> n = 32 \<or> n = 133 \<or> n = 160)"

definition trim_while :: "('a \<Rightarrow> bool) \<Rightarrow> 'a list \<Rightarrow> 'a list" where
  "trim_while P s = rev (dropWhile P (rev (dropWhile P s)))"

definition trim_space :: "string \<Rightarrow> string" where
  "trim_space = trim_while is_space"

definition trim_char :: "char \<Rightarrow> string \<Rightarrow> string" where
  "trim_char c = trim_while (\<lambda>d. d = c)"

definition lower_char :: "char \<Rightarrow> char" where
  "lower_char c = (let n = (of_char c :: nat) in
     if (65 \<le> n \<and> n \<le> 90) \<or> (192 \<le> n \<and> n \<le> 222 \<and> n \<noteq> 215) then char_of (n + 32) else c)"

definition to_lower :: "string \<Rightarrow> string" where
  "to_lower = map lower_char"

fun join :: "string \<Rightarrow> string list \<Rightarrow> string" where
  "join sep [] = []"
| "join sep [x] = x"
| "join sep (x # y # zs) = x @ sep @ join sep (y # zs)"

fun has_prefix :: "string \<Rightarrow> string \<Rightarrow> bool" where
  "has_prefix s [] = True"
| "has_prefix [] (p # ps) = False"
| "has_prefix (c # s) (p # ps) = (c = p \<and> has_prefix s ps)"

definition trim_prefix :: "string \<Rightarrow> string \<Rightarrow> string" where
  "trim_prefix s p = (if has_prefix s p then drop (length p) s else s)"

text \<open>\<open>strconv\<close>: decimal digits of a natural number and of an integer.\<close>

fun nat_digits :: "nat \<Rightarrow> string" where
  "nat_digits n = (if n < 10 then [char_of (48 + n)] else nat_digits (n div 10) @ [char_of (48 + n mod 10)])"

declare nat_digits.simps [simp del]

definition int_digits :: "int \<Rightarrow> string" where
  "int_digits i = (if i < 0 then CHR ''-'' # nat_digits (nat (- i)) else nat_digits (nat i))"

text \<open>\<open>encoding/hex\<close> on strings whose characters are bytes.\<close>

definition hex_digit :: "nat \<Rightarrow> char" where
  "hex_digit n = (if n < 10 then char_of (48 + n) else char_of (87 + n))"

definition hex_encode :: "string \<Rightarrow> string" where
  "hex_encode bs = concat (map (\<lambda>b. let n = (of_char b :: nat) in [hex_digit (n div 16), hex_digit (n mod 16)]) bs)"

lemma trim_while_Nil [simp]: "trim_while P [] = []"
  by (simp add: trim_while_def)

lemma set_trim_while: "set (trim_while P s) \<subseteq> set s"
proof -
  have "set (dropWhile P t) \<subseteq> set t" for t :: "'a list" by (auto dest: set_dropWhileD)
  from this [of "rev (dropWhile P s)"] this [of s] show ?thesis
    unfolding trim_while_def by auto
qed

lemma trim_while_last: "trim_while P s \<noteq> [] \<Longrightarrow> \<not> P (last (trim_while P s))"
  by (metis dropWhile_eq_Nil_conv hd_dropWhile last_rev rev_is_Nil_conv rev_rev_ident trim_while_def)

lemma trim_while_fix:
  assumes "s = [] \<or> (\<not> P (hd s) \<and> \<not> P (last s))"
  shows "trim_while P s = s"
proof (cases s)
  case (Cons c cs)
  then have "dropWhile P s = s" and "dropWhile P (rev s) = rev s"
    using assms by (auto simp: dropWhile_eq_self_iff hd_rev simp del: rev.simps)
  then show ?thesis by (simp add: trim_while_def)
qed simp

lemma trim_while_none: "(\<And>c. c \<in> set s \<Longrightarrow> \<not> P c) \<Longrightarrow> trim_while P s = s"
  by (rule trim_while_fix) (cases s; simp)

lemma trim_while_hd: "trim_while P s \<noteq> [] \<Longrightarrow> \<not> P (hd (trim_while P s))"
proof -
  define d where "d = dropWhile P s"
  assume ne: "trim_while P s \<noteq> []"
  then have "d \<noteq> []" unfolding trim_while_def d_def by force
  then have hd: "\<not> P (hd d)" by (simp add: d_def hd_dropWhile)
  have "d = trim_while P s @ rev (takeWhile P (rev d))"
    unfolding trim_while_def d_def[symmetric]
    by (metis rev_append rev_rev_ident takeWhile_dropWhile_id)
  with ne have "hd d = hd (trim_while P s)" by (metis hd_append2)
  with hd show ?thesis by simp
qed

lemma trim_while_idem [simp]: "trim_while P (trim_while P s) = trim_while P s"
  by (rule trim_while_fix) (auto simp: trim_while_hd trim_while_last)

lemma has_prefix_append [simp]: "has_prefix (p @ s) p"
  by (induction p) simp_all

lemma trim_prefix_append [simp]: "trim_prefix (p @ s) p = s"
  by (simp add: trim_prefix_def)

lemma has_prefix_iff: "has_prefix s p \<longleftrightarrow> (\<exists>r. s = p @ r)"
  by (induction s p rule: has_prefix.induct) auto

section \<open>Maps\<close>

definition go_get :: "gomap \<Rightarrow> string \<Rightarrow> string" where
  "go_get m k = (case map_of m k of Some v \<Rightarrow> v | None \<Rightarrow> [])"

text \<open>\<open>m[k] = v\<close> and \<open>delete(m, k)\<close> on an association list with distinct keys.
  An existing key keeps its place, as the position carries no meaning.\<close>

fun aupd :: "'k \<Rightarrow> 'v \<Rightarrow> ('k \<times> 'v) list \<Rightarrow> ('k \<times> 'v) list" where
  "aupd k v [] = [(k, v)]"
| "aupd k v ((k', v') # m) = (if k = k' then (k, v) # m else (k', v') # aupd k v m)"

definition adel :: "'k \<Rightarrow> ('k \<times> 'v) list \<Rightarrow> ('k \<times> 'v) list" where
  "adel k m = filter (\<lambda>(k', _). k' \<noteq> k) m"

abbreviation akeys :: "('k \<times> 'v) list \<Rightarrow> 'k list" where
  "akeys m \<equiv> map fst m"

abbreviation awf :: "('k \<times> 'v) list \<Rightarrow> bool" where
  "awf m \<equiv> distinct (map fst m)"

lemma map_of_aupd [simp]: "map_of (aupd k v m) = (map_of m)(k \<mapsto> v)"
  by (induction k v m rule: aupd.induct) (auto simp: fun_eq_iff)

lemma map_of_adel [simp]: "map_of (adel k m) = (map_of m)(k := None)"
  unfolding adel_def by (induction m) (auto simp: fun_eq_iff)

lemma keys_aupd [simp]: "fst ` set (aupd k v m) = insert k (fst ` set m)"
  by (induction k v m rule: aupd.induct) auto

lemma keys_adel [simp]: "fst ` set (adel k m) = fst ` set m - {k}"
  unfolding adel_def by force

lemma awf_aupd [simp]: "awf m \<Longrightarrow> awf (aupd k v m)"
  by (induction k v m rule: aupd.induct) auto

lemma awf_adel [simp]: "awf m \<Longrightarrow> awf (adel k m)"
  unfolding adel_def by (induction m) auto

lemma length_aupd [simp]:
  "length (aupd k v m) = (if k \<in> fst ` set m then length m else Suc (length m))"
  by (induction k v m rule: aupd.induct) auto

lemma akeys_aupd_mem [simp]: "k \<in> fst ` set m \<Longrightarrow> akeys (aupd k v m) = akeys m"
  by (induction k v m rule: aupd.induct) auto

lemma akeys_aupd_new [simp]: "k \<notin> fst ` set m \<Longrightarrow> aupd k v m = m @ [(k, v)]"
  by (induction k v m rule: aupd.induct) auto

lemma akeys_adel: "akeys (adel k m) = filter (\<lambda>k'. k' \<noteq> k) (akeys m)"
  unfolding adel_def by (induction m) auto

lemma map_of_None_iff: "map_of m k = None \<longleftrightarrow> k \<notin> fst ` set m"
  by (rule map_of_eq_None_iff)

lemma length_adel_le: "length (adel k m) \<le> length m"
  by (simp add: adel_def)

lemma map_of_rev_awf: "awf xs \<Longrightarrow> map_of (rev xs) = map_of xs"
proof (induction xs)
  case (Cons p xs)
  then have "map_of (rev (p # xs)) = [fst p \<mapsto> snd p] ++ map_of xs" by (simp add: map_of_append)
  also have "\<dots> = (map_of xs)(fst p \<mapsto> snd p)"
    using Cons.prems map_of_eq_None_iff [of xs "fst p"]
    by (auto simp: map_add_def fun_eq_iff split: option.splits)
  finally show ?case by simp
qed simp

lemma map_of_fold_aupd:
  "map_of (fold (\<lambda>(k, v). aupd k v) xs m) = map_of m ++ map_of (rev xs)"
  by (induction xs arbitrary: m) (auto simp: map_add_def fun_eq_iff split: option.splits)

lemma map_of_fold_aupd_awf:
  "awf xs \<Longrightarrow> map_of (fold (\<lambda>(k, v). aupd k v) xs m) = map_of m ++ map_of xs"
  by (simp add: map_of_fold_aupd map_of_rev_awf)

lemma map_of_map_key:
  "map_of (map (\<lambda>(k, v). (k, f k v)) m) k = map_option (f k) (map_of m k)"
  by (induction m) auto

section \<open>Lists\<close>

definition drop_none :: "'a option list \<Rightarrow> 'a list" where
  "drop_none = List.map_filter id"

lemma drop_none_simps [simp]:
  "drop_none [] = []"
  "drop_none (None # xs) = drop_none xs"
  "drop_none (Some x # xs) = x # drop_none xs"
  "drop_none (xs @ ys) = drop_none xs @ drop_none ys"
  by (simp_all add: drop_none_def List.map_filter_def)

lemma set_drop_none [simp]: "set (drop_none xs) = {x. Some x \<in> set xs}"
  by (auto simp: drop_none_def map_filter_def image_iff) (metis option.sel)

lemma drop_none_map_Some [simp]: "drop_none (map Some xs) = xs"
  by (induction xs) simp_all

section \<open>32-bit floats\<close>

text \<open>Go's \<open>==\<close> on \<open>float32\<close>: a NaN equals nothing, the two zeros are equal,
  and otherwise equality is equality of the bit patterns.\<close>

definition f32_abs :: "float32 \<Rightarrow> nat" where
  "f32_abs w = unat w mod 2 ^ 31"

definition f32_nan :: "float32 \<Rightarrow> bool" where
  "f32_nan w = (f32_abs w > 255 * 2 ^ 23)"

definition f32_finite :: "float32 \<Rightarrow> bool" where
  "f32_finite w = (f32_abs w < 255 * 2 ^ 23)"

definition f32_eq :: "float32 \<Rightarrow> float32 \<Rightarrow> bool" where
  "f32_eq a b = (\<not> f32_nan a \<and> \<not> f32_nan b \<and> (a = b \<or> (f32_abs a = 0 \<and> f32_abs b = 0)))"

lemma f32_eq_refl: "f32_eq a a = (\<not> f32_nan a)"
  by (simp add: f32_eq_def)

lemmas [go_simps] = trim_space_def trim_char_def trim_while_def is_space_def go_get_def
  to_lower_def lower_char_def trim_prefix_def drop_none_def

end
