(* ===== verification/Go_Errors.thy ===== *)
theory Go_Errors
  imports Prelude
begin

text \<open>
  Go error values and the three traversals the program performs on them:
  \<open>errors.Is\<close> with a sentinel, \<open>errors.As\<close> with a \<open>FanoutError\<close> target, and
  \<open>ports.IsPermanentError\<close> (src/internal/ports/errors.go).

  An error is a tree.  \<open>ErrNew\<close> is \<open>errors.New\<close> or \<open>fmt.Errorf\<close> without \<open>%w\<close>;
  \<open>ErrSentinel\<close> is a package-level error compared by identity; \<open>ErrWrap\<close> has
  \<open>Unwrap() error\<close>; \<open>ErrJoin\<close> has \<open>Unwrap() []error\<close>; \<open>ErrFanout\<close> is
  \<open>worker.FanoutError\<close>; \<open>ErrAPI\<close> is the
  \<open>APIError\<close> of the Nacos client with its status and body; \<open>ErrClassified\<close> is an error type with a \<open>Permanent()\<close>
  method, given with the value of that method and with what it unwraps to.
\<close>

section \<open>Errors\<close>

datatype go_err =
    ErrNew string
  | ErrSentinel string
  | ErrWrap string go_err
  | ErrJoin "go_err option list"
  | ErrFanout "(string \<times> go_err) list"
  | ErrClassified string bool "go_err list"
  | ErrAPI int string

type_synonym 'a result = "go_err + 'a"

text \<open>A Go result of type \<open>error\<close>: nil is \<^term>\<open>None\<close>.\<close>

type_synonym error = "go_err option"

definition errStaleFullPush :: go_err where
  "errStaleFullPush = ErrSentinel ''worker: stale full push rejected''"

fun errors_Is :: "go_err \<Rightarrow> go_err \<Rightarrow> bool" where
  "errors_Is (ErrNew m) t = False"
| "errors_Is (ErrSentinel n) t = (t = ErrSentinel n)"
| "errors_Is (ErrWrap m e) t = errors_Is e t"
| "errors_Is (ErrJoin es) t = (\<exists>x \<in> set es. case x of None \<Rightarrow> False | Some e \<Rightarrow> errors_Is e t)"
| "errors_Is (ErrFanout fs) t = (\<exists>(s, e) \<in> set fs. errors_Is e t)"
| "errors_Is (ErrClassified m p es) t = (\<exists>e \<in> set es. errors_Is e t)"
| "errors_Is (ErrAPI status body) t = False"

text \<open>The first non-nil result of a depth-first search.\<close>

fun first_some :: "'a option list \<Rightarrow> 'a option" where
  "first_some [] = None"
| "first_some (Some x # xs) = Some x"
| "first_some (None # xs) = first_some xs"

fun errors_As_fanout :: "go_err \<Rightarrow> (string \<times> go_err) list option" where
  "errors_As_fanout (ErrNew m) = None"
| "errors_As_fanout (ErrSentinel n) = None"
| "errors_As_fanout (ErrWrap m e) = errors_As_fanout e"
| "errors_As_fanout (ErrJoin es) =
     first_some (map (\<lambda>x. case x of None \<Rightarrow> None | Some e \<Rightarrow> errors_As_fanout e) es)"
| "errors_As_fanout (ErrFanout fs) = Some fs"
| "errors_As_fanout (ErrClassified m p es) = first_some (map errors_As_fanout es)"
| "errors_As_fanout (ErrAPI status body) = None"

fun errors_As_api :: "go_err \<Rightarrow> (int \<times> string) option" where
  "errors_As_api (ErrNew m) = None"
| "errors_As_api (ErrSentinel n) = None"
| "errors_As_api (ErrWrap m e) = errors_As_api e"
| "errors_As_api (ErrJoin es) = first_some (map (\<lambda>x. case x of None \<Rightarrow> None | Some e \<Rightarrow> errors_As_api e) es)"
| "errors_As_api (ErrFanout fs) = first_some (map (\<lambda>(s, e). errors_As_api e) fs)"
| "errors_As_api (ErrClassified m p es) = first_some (map errors_As_api es)"
| "errors_As_api (ErrAPI status body) = Some (status, body)"

text \<open>\<open>errors.As\<close> for an interface with \<open>Permanent() bool\<close>: the verdict of the first error that
  has one.\<close>

fun errors_As_permanent :: "go_err \<Rightarrow> bool option" where
  "errors_As_permanent (ErrNew m) = None"
| "errors_As_permanent (ErrSentinel n) = None"
| "errors_As_permanent (ErrWrap m e) = errors_As_permanent e"
| "errors_As_permanent (ErrJoin es) = first_some (map (\<lambda>x. case x of None \<Rightarrow> None | Some e \<Rightarrow> errors_As_permanent e) es)"
| "errors_As_permanent (ErrFanout fs) = first_some (map (\<lambda>(s, e). errors_As_permanent e) fs)"
| "errors_As_permanent (ErrClassified m p es) = Some p"
| "errors_As_permanent (ErrAPI status body) = Some (400 \<le> status \<and> status < 500)"

text \<open>The loop over the children of an aggregate: a nil child is skipped, a
  retryable child decides, and an aggregate without a child is retryable.\<close>

fun perm_children :: "bool \<Rightarrow> bool option list \<Rightarrow> bool" where
  "perm_children found [] = found"
| "perm_children found (None # bs) = perm_children found bs"
| "perm_children found (Some b # bs) = (if \<not> b then False else perm_children True bs)"

fun IsPermanentError :: "go_err \<Rightarrow> bool" where
  "IsPermanentError (ErrClassified m p es) = p"
| "IsPermanentError (ErrJoin es) =
     perm_children False (map (\<lambda>x. case x of None \<Rightarrow> None | Some e \<Rightarrow> Some (IsPermanentError e)) es)"
| "IsPermanentError (ErrFanout fs) =
     perm_children False (map (\<lambda>(s, e). Some (IsPermanentError e)) fs)"
| "IsPermanentError (ErrWrap m e) = IsPermanentError e"
| "IsPermanentError (ErrNew m) = False"
| "IsPermanentError (ErrSentinel n) = False"
| "IsPermanentError (ErrAPI status body) = (400 \<le> status \<and> status < 500)"

section \<open>Classification\<close>

text \<open>The verdicts that decide an error: one per leaf, where an error with an
  explicit classification is a leaf, an unclassified leaf counts as retryable,
  and so does an aggregate with nothing in it.\<close>

fun verdicts :: "go_err \<Rightarrow> bool list" where
  "verdicts (ErrClassified m p es) = [p]"
| "verdicts (ErrJoin es) =
     (let vs = concat (map (\<lambda>x. case x of None \<Rightarrow> [] | Some e \<Rightarrow> verdicts e) es)
      in if vs = [] then [False] else vs)"
| "verdicts (ErrFanout fs) =
     (let vs = concat (map (\<lambda>(s, e). verdicts e) fs) in if vs = [] then [False] else vs)"
| "verdicts (ErrWrap m e) = verdicts e"
| "verdicts (ErrNew m) = [False]"
| "verdicts (ErrSentinel n) = [False]"
| "verdicts (ErrAPI status body) = [400 \<le> status \<and> status < 500]"

lemma perm_children_iff:
  "perm_children found bs \<longleftrightarrow> (\<forall>b. Some b \<in> set bs \<longrightarrow> b) \<and> (found \<or> (\<exists>b. Some b \<in> set bs))"
  by (induction found bs rule: perm_children.induct) auto

lemma verdicts_ne [simp]: "verdicts e \<noteq> []"
proof (induction e)
  case (ErrWrap m e)
  then show ?case by simp
qed (simp_all add: Let_def)

lemma perm_children_options:
  assumes "\<And>e. Some e \<in> set es \<Longrightarrow> f e = (False \<notin> set (verdicts e))"
  shows "perm_children False (map (\<lambda>x. case x of None \<Rightarrow> None | Some e \<Rightarrow> Some (f e)) es)
    = ((\<exists>e. Some e \<in> set es) \<and> (\<forall>e. Some e \<in> set es \<longrightarrow> False \<notin> set (verdicts e)))"
proof -
  let ?g = "\<lambda>x. case x of None \<Rightarrow> None | Some e \<Rightarrow> Some (f e)"
  have "Some b \<in> set (map ?g es) \<longleftrightarrow> (\<exists>e. Some e \<in> set es \<and> b = f e)" for b
    by (auto simp: image_iff split: option.splits)
  with assms show ?thesis unfolding perm_children_iff by metis
qed

lemma perm_children_pairs:
  assumes "\<And>s e. (s, e) \<in> set fs \<Longrightarrow> f e = (False \<notin> set (verdicts e))"
  shows "perm_children False (map (\<lambda>(s, e). Some (f e)) fs)
    = (fs \<noteq> [] \<and> (\<forall>(s, e) \<in> set fs. False \<notin> set (verdicts e)))"
proof -
  let ?g = "\<lambda>(s, e). Some (f e)"
  have g: "Some b \<in> set (map ?g fs) \<longleftrightarrow> (\<exists>s e. (s, e) \<in> set fs \<and> b = f e)" for b
    by (force simp: image_iff)
  have ne: "fs \<noteq> [] \<longleftrightarrow> (\<exists>s e. (s, e) \<in> set fs)" by (cases fs) auto
  show ?thesis unfolding perm_children_iff g ne using assms by (metis (no_types, lifting) case_prodD case_prodI2)
qed

lemma verdicts_join:
  "False \<in> set (verdicts (ErrJoin es))
    \<longleftrightarrow> (\<exists>e. Some e \<in> set es \<and> False \<in> set (verdicts e)) \<or> (\<forall>e. Some e \<notin> set es)"
proof -
  let ?c = "concat (map (\<lambda>x. case x of None \<Rightarrow> [] | Some e \<Rightarrow> verdicts e) es)"
  have "set ?c = (\<Union>e \<in> {e. Some e \<in> set es}. set (verdicts e))"
    by (auto split: option.splits)
  moreover have "?c = [] \<longleftrightarrow> (\<forall>e. Some e \<notin> set es)"
    by (auto split: option.splits) (metis not_None_eq)
  ultimately show ?thesis by (auto simp: Let_def simp del: set_concat)
qed

lemma verdicts_fanout:
  "False \<in> set (verdicts (ErrFanout fs))
    \<longleftrightarrow> (\<exists>(s, e) \<in> set fs. False \<in> set (verdicts e)) \<or> fs = []"
  by (cases fs) (auto simp: Let_def)

text \<open>An error may be dropped from the retry queue only if every leaf
  failure it aggregates is permanent: \<open>IsPermanentError\<close> is the conjunction of
  the verdicts of the leaves, through any nesting of wrappers, joins and
  fan-out errors, and never finds one permanent leaf beside a retryable one.\<close>

theorem IsPermanentError_iff_all_leaves:
  "IsPermanentError e = (False \<notin> set (verdicts e))"
proof (induction e rule: IsPermanentError.induct)
  case (2 es)
  have "IsPermanentError e = (False \<notin> set (verdicts e))" if "Some e \<in> set es" for e
    using "2.IH" that by blast
  then show ?case
    by (simp add: perm_children_options verdicts_join del: verdicts.simps) blast
next
  case (3 fs)
  have "IsPermanentError e = (False \<notin> set (verdicts e))" if "(s, e) \<in> set fs" for s e
    using "3.IH" that by blast
  then show ?case
    by (simp add: perm_children_pairs verdicts_fanout del: verdicts.simps) blast
qed simp_all

end
