(* ===== verification/Sha256.thy ===== *)
theory Sha256
  imports Main "HOL-Library.Word"
begin

text \<open>
  The digest \<open>crypto/sha256.Sum256\<close> of the Go standard library, which names the
  anonymous sources of src/internal/domain/instance/identity.go and
  src/pkg/k8srobot/k8srobot.go: padding, message schedule and compression of
  FIPS 180-4 over 32-bit words, on strings whose characters are bytes.
\<close>

unbundle bit_operations_syntax

text \<open>The constants are the first 32 bits after the binary point of the cube roots
  of the first 64 primes and of the square roots of the first eight: the
  integer roots of the primes scaled by the power of two, modulo \<open>2 ^ 32\<close>.\<close>

definition sha_prime :: "nat \<Rightarrow> bool" where
  "sha_prime n \<longleftrightarrow> 1 < n \<and> list_all (\<lambda>d. n mod d \<noteq> 0) [2..<n]"

definition sha_primes :: "nat list" where
  "sha_primes = filter sha_prime [2..<312]"

text \<open>The integer root, bit by bit from the top.\<close>

fun sha_root :: "nat \<Rightarrow> nat \<Rightarrow> nat \<Rightarrow> nat \<Rightarrow> nat" where
  "sha_root k n r 0 = r"
| "sha_root k n r (Suc b) = (if (r + 2 ^ b) ^ k \<le> n then sha_root k n (r + 2 ^ b) b else sha_root k n r b)"

definition sha_k :: "32 word list" where
  "sha_k = map (\<lambda>p. of_nat (sha_root 3 (p * 2 ^ 96) 0 36)) sha_primes"

type_synonym sha_state = "32 word list"

definition sha_init :: sha_state where
  "sha_init = map (\<lambda>p. of_nat (sha_root 2 (p * 2 ^ 64) 0 36)) [2, 3, 5, 7, 11, 13, 17, 19]"

definition sha_rotr :: "nat \<Rightarrow> 32 word \<Rightarrow> 32 word" where
  "sha_rotr n x = (drop_bit n x) OR (push_bit (32 - n) x)"

text \<open>Big-endian conversions between characters and words.\<close>

definition sha_word :: "string \<Rightarrow> 32 word" where
  "sha_word cs = foldl (\<lambda>w c. push_bit 8 w OR of_nat (of_char c)) 0 cs"

definition sha_bytes :: "nat \<Rightarrow> nat \<Rightarrow> string" where
  "sha_bytes n v = map (\<lambda>i. char_of (v div 256 ^ (n - 1 - i) mod 256)) [0..<n]"

definition sha_pad :: "string \<Rightarrow> string" where
  "sha_pad m = m @ char_of (128 :: nat) # replicate ((119 - length m mod 64) mod 64) (char_of (0 :: nat))
     @ sha_bytes 8 (8 * length m)"

text \<open>The message schedule: the sixteen words of a block extended to 64.\<close>

fun sha_schedule :: "nat \<Rightarrow> 32 word list \<Rightarrow> 32 word list" where
  "sha_schedule 0 w = w"
| "sha_schedule (Suc k) w =
    (let i = length w; a = w ! (i - 15); b = w ! (i - 2);
         s0 = sha_rotr 7 a XOR sha_rotr 18 a XOR drop_bit 3 a;
         s1 = sha_rotr 17 b XOR sha_rotr 19 b XOR drop_bit 10 b
     in sha_schedule k (w @ [w ! (i - 16) + s0 + w ! (i - 7) + s1]))"

fun sha_round :: "sha_state \<Rightarrow> 32 word \<times> 32 word \<Rightarrow> sha_state" where
  "sha_round [a, b, c, d, e, f, g, h] (k, w) =
    (let t1 = h + (sha_rotr 6 e XOR sha_rotr 11 e XOR sha_rotr 25 e)
              + ((e AND f) XOR (NOT e AND g)) + k + w;
         t2 = (sha_rotr 2 a XOR sha_rotr 13 a XOR sha_rotr 22 a)
              + ((a AND b) XOR (a AND c) XOR (b AND c))
     in [t1 + t2, a, b, c, d + t1, e, f, g])"
| "sha_round s kw = s"

fun chunks :: "nat \<Rightarrow> nat \<Rightarrow> 'a list \<Rightarrow> 'a list list" where
  "chunks 0 n xs = []"
| "chunks (Suc k) n xs = take n xs # chunks k n (drop n xs)"

definition sha_block :: "sha_state \<Rightarrow> string \<Rightarrow> sha_state" where
  "sha_block s blk =
    (let w = sha_schedule 48 (map sha_word (chunks 16 4 blk))
     in map2 (+) s (foldl sha_round s (zip sha_k w)))"

definition sum256 :: "string \<Rightarrow> string" where
  "sum256 m = (let p = sha_pad m in
     concat (map (\<lambda>w. sha_bytes 4 (unat w)) (foldl sha_block sha_init (chunks (length p div 64) 64 p))))"

lemma length_sha_bytes [simp]: "length (sha_bytes n v) = n"
  by (simp add: sha_bytes_def)

lemma length_sha_round [simp]: "length (sha_round s kw) = length s"
  by (induction s kw rule: sha_round.induct) (simp_all add: Let_def)

lemma length_sha_rounds: "length (foldl sha_round s kws) = length s"
  by (induction kws arbitrary: s) simp_all

lemma length_sha_blocks: "length (foldl sha_block s bs) = length s"
  by (induction bs arbitrary: s) (simp_all add: sha_block_def Let_def length_sha_rounds)

lemma length_sum256 [simp]: "length (sum256 m) = 32"
proof -
  have "length (concat (map (\<lambda>w. sha_bytes 4 (unat w)) ws)) = 4 * length ws" for ws :: "32 word list"
    by (induction ws) simp_all
  then show ?thesis by (simp add: sum256_def Let_def length_sha_blocks sha_init_def)
qed

text \<open>Whole blocks are hashed: the padding fills the last one.\<close>

lemma length_sha_pad: "length (sha_pad m) mod 64 = 0"
proof -
  have "(n + 9 + (119 - n mod 64) mod 64) mod 64 = 0" for n :: nat
  proof -
    obtain q r where n: "n = r + 64 * q" "r < 64" using mod_less_divisor [of 64 n] mult_div_mod_eq [of 64 n]
      by (metis add.commute zero_less_numeral)
    have "(119 - r) mod 64 = (if r \<le> 55 then 55 - r else 119 - r)"
      using le_mod_geq [of 64 "119 - r"] by auto
    then have "n + 9 + (119 - n mod 64) mod 64 = (if r \<le> 55 then 64 * (q + 1) else 64 * (q + 2))"
      using n by auto
    then show ?thesis by simp
  qed
  from this [of "length m"] show ?thesis by (simp add: sha_pad_def ac_simps)
qed

end
