(* ===== verification/Instance_Model.thy ===== *)
theory Instance_Model
  imports Go_Errors Sha256 "HOL-Library.Sublist"
begin

text \<open>
  The provider-independent instance model of src/internal/domain/instance:
  the \<open>Instance\<close> struct (model.go), its identity key and the wire-scope
  normalisation (identity.go), the pod observation policies (observation.go)
  and the comparison rules (rules.go).  The comparison by canonical payload is
  in the theory of the payload encoding.
\<close>

section \<open>Data\<close>

record port_info =
  PName :: string
  Protocol :: string
  Port :: int32
  ServicePort :: int32

record inst =
  SourceKey :: string
  SourceCluster :: string
  InstanceId :: string
  Level :: string
  Ports :: "port_info option list"
  Ip :: string
  EnvCode :: string
  EnvType :: string
  EnvGroup :: string
  Cluster :: string
  Version :: string
  Enabled :: bool
  State :: string
  HealthState :: string
  AppCode :: string
  Provider :: string
  Label :: gomap
  Hostname :: string
  Cpu :: float32
  Memory :: int32
  Disk :: int32
  Os :: string
  Image :: gomap
  Idc :: string
  Reversion :: int64
  Status :: int32

type_synonym insts = "inst option list"

text \<open>The zero value of the struct.\<close>

definition zero_inst :: inst where
  "zero_inst = \<lparr>SourceKey = [], SourceCluster = [], InstanceId = [], Level = [], Ports = [], Ip = [],
     EnvCode = [], EnvType = [], EnvGroup = [], Cluster = [], Version = [], Enabled = False,
     State = [], HealthState = [], AppCode = [], Provider = [], Label = [], Hostname = [], Cpu = 0,
     Memory = 0, Disk = 0, Os = [], Image = [], Idc = [], Reversion = 0, Status = 0\<rparr>"

definition InstanceStatePending :: string where "InstanceStatePending = ''pending''"
definition InstanceStateStarting :: string where "InstanceStateStarting = ''starting''"
definition InstanceStateProbing :: string where "InstanceStateProbing = ''probing''"
definition InstanceStateOOM :: string where "InstanceStateOOM = ''oom''"
definition InstanceStateCrash :: string where "InstanceStateCrash = ''crash''"
definition InstanceStateRunning :: string where "InstanceStateRunning = ''running''"
definition InstanceStateError :: string where "InstanceStateError = ''error''"
definition InstanceStateFailed :: string where "InstanceStateFailed = ''failed''"
definition InstanceStateTerminated :: string where "InstanceStateTerminated = ''terminated''"
definition InstanceStateEvicted :: string where "InstanceStateEvicted = ''evicted''"
definition InstanceStateUnknown :: string where "InstanceStateUnknown = ''unknown''"

definition InstanceStatusUnknown :: int32 where "InstanceStatusUnknown = 0"
definition InstanceStatusOnline :: int32 where "InstanceStatusOnline = 1"
definition InstanceStatusUnhealthy :: int32 where "InstanceStatusUnhealthy = 2"
definition InstanceStatusOffline :: int32 where "InstanceStatusOffline = 3"

definition ProviderK8s :: string where "ProviderK8s = ''k8s''"
definition ProviderEcs :: string where "ProviderEcs = ''ecs''"
definition EnvProduct :: string where "EnvProduct = ''product''"

lemmas state_defs = InstanceStatePending_def InstanceStateStarting_def InstanceStateProbing_def
  InstanceStateOOM_def InstanceStateCrash_def InstanceStateRunning_def InstanceStateError_def
  InstanceStateFailed_def InstanceStateTerminated_def InstanceStateEvicted_def
  InstanceStateUnknown_def

lemmas status_defs = InstanceStatusUnknown_def InstanceStatusOnline_def
  InstanceStatusUnhealthy_def InstanceStatusOffline_def

lemmas const_defs = state_defs status_defs ProviderK8s_def ProviderEcs_def EnvProduct_def

section \<open>Identity\<close>

definition IdentityKey :: "inst \<Rightarrow> string" where
  "IdentityKey ins =
    (if SourceKey ins \<noteq> [] then SourceKey ins
     else if go_get (Label ins) ''sourceKey'' \<noteq> [] then go_get (Label ins) ''sourceKey''
     else if Provider ins = [] then InstanceId ins
     else Provider ins @ '':'' @ InstanceId ins)"

definition IdentityKeyOf :: "inst option \<Rightarrow> string" where
  "IdentityKeyOf x = (case x of None \<Rightarrow> [] | Some ins \<Rightarrow> IdentityKey ins)"

definition wire_char :: "char \<Rightarrow> bool" where
  "wire_char r = ((CHR ''a'' \<le> r \<and> r \<le> CHR ''z'') \<or> (CHR ''A'' \<le> r \<and> r \<le> CHR ''Z'')
     \<or> (CHR ''0'' \<le> r \<and> r \<le> CHR ''9'') \<or> r = CHR ''-'' \<or> r = CHR ''_'' \<or> r = CHR ''.'')"

definition SanitizeWireScope :: "string \<Rightarrow> string" where
  "SanitizeWireScope value =
     trim_char (CHR ''-'') (map (\<lambda>r. if wire_char r then r else CHR ''-'') (trim_space value))"

text \<open>\<open>encoding/hex\<close>: two lower-case digits per byte, a byte being a
  character of the digest.\<close>

text \<open>The loop that collects the trimmed, non-empty, not yet seen addresses.\<close>

fun canonical_addresses :: "string list \<Rightarrow> string list \<Rightarrow> string list" where
  "canonical_addresses acc [] = acc"
| "canonical_addresses acc (a # as) =
     (let t = trim_space a in
      if t \<noteq> [] \<and> t \<notin> set acc then canonical_addresses (acc @ [t]) as
      else canonical_addresses acc as)"

definition ConsulSourceID :: "string \<Rightarrow> string list \<Rightarrow> string result" where
  "ConsulSourceID configured0 addresses =
    (let configured = trim_space configured0 in
     if configured \<noteq> [] then
       if \<not> list_all wire_char configured then
         Inl (ErrNew (''consul source ID must contain only letters, digits, hyphen, underscore, or dot: '' @ configured))
       else if SanitizeWireScope configured \<noteq> configured then
         Inl (ErrNew (''consul source ID must be identical to its Nacos wire scope: '' @ configured))
       else Inr configured
     else
       let canonical = sort (canonical_addresses [] addresses) in
       Inr (''consul-'' @ hex_encode (take 6 (sum256 (join '','' canonical)))))"

section \<open>Pod observations\<close>

record PodObservation =
  Phase :: string
  PodReason :: string
  WaitingReason :: string
  LastTerminationReason :: string
  ContainerReady :: bool
  ContainerRunning :: bool
  Deleting :: bool
  ObsLabels :: gomap
  ObsEnv :: gomap
  ObsEvent :: string

definition StateOf :: "PodObservation \<Rightarrow> string" where
  "StateOf obs =
    (if Deleting obs then InstanceStateTerminated
     else if Phase obs = ''Pending'' then InstanceStatePending
     else if Phase obs = ''Unknown'' then InstanceStateUnknown
     else if Phase obs = ''Failed'' then
       (if PodReason obs = ''Evicted'' then InstanceStateEvicted else InstanceStateFailed)
     else if Phase obs = ''Succeeded'' then InstanceStateTerminated
     else if Phase obs = ''Running'' then
       (if ContainerReady obs then InstanceStateRunning
        else if WaitingReason obs = ''CrashLoopBackOff'' then
          (if LastTerminationReason obs = ''Error'' then InstanceStateError else InstanceStateCrash)
        else InstanceStateProbing)
     else InstanceStateUnknown)"

definition StatusOf :: "PodObservation \<Rightarrow> int32" where
  "StatusOf obs =
    (if Deleting obs \<or> ObsEvent obs = ''delete'' then InstanceStatusOffline
     else if Phase obs = ''Pending'' then InstanceStatusUnhealthy
     else if Phase obs = ''Unknown'' then InstanceStatusOffline
     else if Phase obs = ''Failed'' then
       (if PodReason obs = ''Evicted'' then InstanceStatusUnhealthy else InstanceStatusOffline)
     else if Phase obs = ''Succeeded'' then InstanceStatusOffline
     else if Phase obs = ''Running'' then
       (if ContainerReady obs \<and> ContainerRunning obs then InstanceStatusOnline
        else InstanceStatusUnhealthy)
     else InstanceStatusOffline)"

definition EnvTypeOf :: "PodObservation \<Rightarrow> string \<Rightarrow> string" where
  "EnvTypeOf obs discovered =
    (let value = go_get (ObsLabels obs) ''env-type'';
         envType = (if value \<noteq> [] \<and> discovered \<noteq> [] then value
                    else if discovered = [] then go_get (ObsLabels obs) ''K8S_CLUSTER_TYPE''
                    else discovered);
         envType = to_lower envType
     in if envType = ''online'' then EnvProduct else envType)"

section \<open>Rules\<close>

fun ListToMap_from :: "(string \<times> inst) list \<Rightarrow> insts \<Rightarrow> (string \<times> inst) list" where
  "ListToMap_from m [] = m"
| "ListToMap_from m (None # xs) = ListToMap_from m xs"
| "ListToMap_from m (Some v # xs) = ListToMap_from (aupd (IdentityKey v) v m) xs"

definition ListToMap :: "insts \<Rightarrow> (string \<times> inst) list" where
  "ListToMap ins = ListToMap_from [] ins"

definition instance_filter :: "inst option \<Rightarrow> error" where
  "instance_filter x = (case x of
      None \<Rightarrow> Some (ErrNew ''nil resource instance'')
    | Some ins \<Rightarrow>
       if AppCode ins = [] then Some (ErrNew ''instance has nil appcode'')
       else if EnvType ins = [] then Some (ErrNew ''instance has nil env type'')
       else if Status ins = InstanceStatusOnline \<and> Ip ins = [] then
         Some (ErrNew ''instance has nil ip when it on online status'')
       else if State ins = InstanceStatePending then
         Some (ErrNew ''instance has nil ip when it on heal check status and pending state'')
       else if Reversion ins = 0 then Some (ErrNew ''instance has nil reversion'')
       else if Status ins = InstanceStatusUnknown then
         Some (ErrNew ''instance has status unknown value'')
       else None)"

definition DiffNewerReversion :: "inst option \<Rightarrow> inst option \<Rightarrow> bool" where
  "DiffNewerReversion old0 new0 = (case (old0, new0) of
      (Some old, Some new) \<Rightarrow>
        if Status old = Status new \<and> Status old = InstanceStatusOffline then False
        else if Reversion new > Reversion old then True
        else EnvType new \<noteq> EnvType old \<or> State new \<noteq> State old \<or> Status new \<noteq> Status old
          \<or> EnvGroup new \<noteq> EnvGroup old \<or> InstanceId new \<noteq> InstanceId old \<or> Ip new \<noteq> Ip old
    | _ \<Rightarrow> False)"

definition DiffEqualReversion :: "inst option \<Rightarrow> inst option \<Rightarrow> bool" where
  "DiffEqualReversion old0 new0 = (case (old0, new0) of
      (Some old, Some new) \<Rightarrow>
        if Reversion old \<noteq> Reversion new then False
        else EnvType old \<noteq> EnvType new \<or> EnvGroup old \<noteq> EnvGroup new \<or> Status old \<noteq> Status new
          \<or> State old \<noteq> State new \<or> Ip old \<noteq> Ip new \<or> Idc old \<noteq> Idc new
          \<or> Cluster old \<noteq> Cluster new \<or> Enabled old \<noteq> Enabled new
          \<or> AppCode old \<noteq> AppCode new \<or> \<not> f32_eq (Cpu old) (Cpu new)
    | _ \<Rightarrow> False)"

definition isLegacy :: "inst \<Rightarrow> bool" where
  "isLegacy item = (SourceKey item = [] \<and> SourceCluster item = []
     \<and> go_get (Label item) ''sourceKey'' = [] \<and> go_get (Label item) ''sourceCluster'' = [])"

text \<open>The loop state is the result map and the set of duplicate wire ids.\<close>

fun uniqueWireIDs_from :: "(string \<times> inst) list \<Rightarrow> string list \<Rightarrow> insts \<Rightarrow> (string \<times> inst) list" where
  "uniqueWireIDs_from result duplicates [] = result"
| "uniqueWireIDs_from result duplicates (None # xs) = uniqueWireIDs_from result duplicates xs"
| "uniqueWireIDs_from result duplicates (Some item # xs) =
    (if InstanceId item = [] \<or> InstanceId item \<in> set duplicates
     then uniqueWireIDs_from result duplicates xs
     else if map_of result (InstanceId item) \<noteq> None
     then uniqueWireIDs_from (adel (InstanceId item) result) (InstanceId item # duplicates) xs
     else uniqueWireIDs_from (aupd (InstanceId item) item result) duplicates xs)"

definition uniqueWireIDs :: "insts \<Rightarrow> (string \<times> inst) list" where
  "uniqueWireIDs items = uniqueWireIDs_from [] [] items"

text \<open>The remote partner of a provider instance: the one with its identity
  key, or the legacy candidate with its wire id.  Pointer comparison
  \<open>legacyProvider[id] == current\<close> is comparison of values: a wire id in the
  result of \<open>uniqueWireIDs\<close> occurs once in the list.\<close>

definition provider_partner ::
  "(string \<times> inst) list \<Rightarrow> (string \<times> inst) list \<Rightarrow> (string \<times> inst) list \<Rightarrow> inst \<Rightarrow> inst option" where
  "provider_partner remoteByID legacyRemote legacyProvider current =
    (case map_of remoteByID (IdentityKey current) of
       Some other \<Rightarrow> Some other
     | None \<Rightarrow>
        if map_of legacyProvider (InstanceId current) = Some current then
          (case map_of legacyRemote (InstanceId current) of
             None \<Rightarrow> None
           | Some candidate \<Rightarrow> if isLegacy current \<or> isLegacy candidate then Some candidate else None)
        else None)"

definition remote_matched ::
  "(string \<times> inst) list \<Rightarrow> (string \<times> inst) list \<Rightarrow> (string \<times> inst) list \<Rightarrow> inst \<Rightarrow> bool" where
  "remote_matched providerByID legacyRemote legacyProvider current =
    (map_of providerByID (IdentityKey current) \<noteq> None
     \<or> (map_of legacyRemote (InstanceId current) = Some current
        \<and> (case map_of legacyProvider (InstanceId current) of
             None \<Rightarrow> False | Some p \<Rightarrow> isLegacy current \<or> isLegacy p)))"

fun compare_provider ::
  "(inst \<Rightarrow> inst option) \<Rightarrow> (inst \<Rightarrow> inst \<Rightarrow> bool) option \<Rightarrow> insts \<Rightarrow> inst list \<times> inst list" where
  "compare_provider partner diff [] = ([], [])"
| "compare_provider partner diff (None # xs) = compare_provider partner diff xs"
| "compare_provider partner diff (Some current # xs) =
    (let (providerOnly, changed) = compare_provider partner diff xs in
     case partner current of
       None \<Rightarrow> (current # providerOnly, changed)
     | Some other \<Rightarrow>
        (case diff of
           None \<Rightarrow> (providerOnly, changed)
         | Some d \<Rightarrow> if d other current then (providerOnly, current # changed)
                     else (providerOnly, changed)))"

definition CompareThreeWay ::
  "insts \<Rightarrow> insts \<Rightarrow> (inst \<Rightarrow> inst \<Rightarrow> bool) option \<Rightarrow> inst list \<times> inst list \<times> inst list" where
  "CompareThreeWay provider remote diff =
    (let remoteByID = ListToMap remote;
         providerByID = ListToMap provider;
         legacyRemote = uniqueWireIDs remote;
         legacyProvider = uniqueWireIDs provider;
         (providerOnly, changed) =
            compare_provider (provider_partner remoteByID legacyRemote legacyProvider) diff provider;
         remoteOnly = filter (\<lambda>c. \<not> remote_matched providerByID legacyRemote legacyProvider c)
                        (drop_none remote)
     in (providerOnly, remoteOnly, changed))"

definition ComposeEnvCode :: "string \<Rightarrow> string \<Rightarrow> string" where
  "ComposeEnvCode envType envGroup = envType @ ''#'' @ envGroup"

section \<open>Wire scopes and source ids\<close>

lemma wire_char_code:
  "wire_char r = (let n = (of_char r :: nat) in (97 \<le> n \<and> n \<le> 122) \<or> (65 \<le> n \<and> n \<le> 90)
     \<or> (48 \<le> n \<and> n \<le> 57) \<or> n = 45 \<or> n = 95 \<or> n = 46)"
proof -
  have c: "of_char (CHR ''-'') = (45 :: nat)" "of_char (CHR ''_'') = (95 :: nat)" "of_char (CHR ''.'') = (46 :: nat)"
    by simp_all
  then have "r = CHR ''-'' \<longleftrightarrow> of_char r = (45 :: nat)" "r = CHR ''_'' \<longleftrightarrow> of_char r = (95 :: nat)"
    "r = CHR ''.'' \<longleftrightarrow> of_char r = (46 :: nat)" by (metis of_char_eq_iff)+
  then show ?thesis by (simp add: wire_char_def less_eq_char_def Let_def)
qed

lemma wire_char_dash [simp]: "wire_char (CHR ''-'')"
  by (simp add: wire_char_def)

lemma wire_char_not_space: "wire_char c \<Longrightarrow> \<not> is_space c"
  by (auto simp: wire_char_code is_space_def Let_def)

lemma Sanitize_chars: "c \<in> set (SanitizeWireScope v) \<Longrightarrow> wire_char c"
  using set_trim_while [of "\<lambda>d. d = CHR ''-''"]
  by (fastforce simp: SanitizeWireScope_def trim_char_def split: if_splits)

lemma Sanitize_edges:
  "SanitizeWireScope v \<noteq> [] \<Longrightarrow> hd (SanitizeWireScope v) \<noteq> CHR ''-'' \<and> last (SanitizeWireScope v) \<noteq> CHR ''-''"
  unfolding SanitizeWireScope_def trim_char_def
  using trim_while_hd [of "\<lambda>d. d = CHR ''-''"] trim_while_last [of "\<lambda>d. d = CHR ''-''"] by blast

text \<open>A string of wire characters without a hyphen at either end is its own scope.\<close>

lemma Sanitize_fixpoint:
  assumes "\<And>c. c \<in> set s \<Longrightarrow> wire_char c"
    and "s \<noteq> [] \<Longrightarrow> hd s \<noteq> CHR ''-'' \<and> last s \<noteq> CHR ''-''"
  shows "SanitizeWireScope s = s"
proof -
  have "trim_space s = s"
    unfolding trim_space_def using assms(1) by (intro trim_while_none) (simp add: wire_char_not_space)
  moreover have "map (\<lambda>r. if wire_char r then r else CHR ''-'') s = s"
    using assms(1) by (simp add: map_idI)
  moreover have "trim_char (CHR ''-'') s = s"
    unfolding trim_char_def using assms(2) by (intro trim_while_fix) auto
  ultimately show ?thesis by (simp add: SanitizeWireScope_def)
qed

lemma Sanitize_idem [simp]: "SanitizeWireScope (SanitizeWireScope v) = SanitizeWireScope v"
  by (rule Sanitize_fixpoint) (auto simp: Sanitize_chars dest: Sanitize_edges)

lemma hex_digit_wire: "n < 16 \<Longrightarrow> wire_char (hex_digit n) \<and> hex_digit n \<noteq> CHR ''-''"
proof -
  assume "n < 16"
  then have "(of_char (hex_digit n) :: nat) = (if n < 10 then 48 + n else 87 + n)"
    by (simp add: hex_digit_def of_char_of)
  with \<open>n < 16\<close> show ?thesis by (auto simp: wire_char_code Let_def split: if_splits)
qed

lemma of_char_lt: "(of_char c :: nat) < 256"
  using rangeI [of "of_char :: char \<Rightarrow> nat" c] unfolding range_nat_of_char by simp

lemma hex_encode_wire: "c \<in> set (hex_encode bs) \<Longrightarrow> wire_char c \<and> c \<noteq> CHR ''-''"
proof -
  assume "c \<in> set (hex_encode bs)"
  then obtain b where "c = hex_digit (of_char b div 16) \<or> c = hex_digit (of_char b mod 16)"
    by (auto simp: hex_encode_def Let_def)
  moreover have "of_char b div 16 < (16 :: nat)" using of_char_lt [of b] by (simp add: less_mult_imp_div_less)
  ultimately show ?thesis using hex_digit_wire by auto
qed

lemma hex_encode_Nil_iff: "hex_encode bs = [] \<longleftrightarrow> bs = []"
  by (auto simp: hex_encode_def Let_def)

lemma canonical_addresses_set:
  "set (canonical_addresses acc as) = set acc \<union> (trim_space ` set as - {[]})"
  by (induction acc as rule: canonical_addresses.induct) (auto simp: Let_def)

lemma canonical_addresses_distinct: "distinct acc \<Longrightarrow> distinct (canonical_addresses acc as)"
  by (induction acc as rule: canonical_addresses.induct) (auto simp: Let_def)

lemma canonical_addresses_sort:
  assumes "trim_space ` set as - {[]} = trim_space ` set bs - {[]}"
  shows "sort (canonical_addresses [] as) = sort (canonical_addresses [] bs)"
  using assms canonical_addresses_distinct [of "[]"]
  by (intro sorted_distinct_set_unique) (simp_all add: canonical_addresses_set)

lemma wire_append_scope:
  assumes "list_all wire_char p" and "p \<noteq> []" and "hd p \<noteq> CHR ''-''" and "d \<noteq> []"
  shows "SanitizeWireScope (p @ hex_encode d) = p @ hex_encode d"
proof (rule Sanitize_fixpoint)
  show "wire_char c" if "c \<in> set (p @ hex_encode d)" for c
    using that assms(1) hex_encode_wire by (auto simp: list_all_iff)
  have "hex_encode d \<noteq> []" using assms by (simp add: hex_encode_Nil_iff)
  then show "hd (p @ hex_encode d) \<noteq> CHR ''-'' \<and> last (p @ hex_encode d) \<noteq> CHR ''-''"
    using assms hex_encode_wire [of "last (hex_encode d)" d] by simp
qed

lemma derived_id_scope:
  "d \<noteq> [] \<Longrightarrow> SanitizeWireScope (''consul-'' @ hex_encode d) = ''consul-'' @ hex_encode d"
  by (rule wire_append_scope) (simp_all add: wire_char_def)

text \<open>\<open>SanitizeWireScope\<close> is a normalisation: it is idempotent, its result has
  only characters a Nacos cluster name admits, and no hyphen at either end.\<close>

theorem SanitizeWireScope_normal_form:
  "SanitizeWireScope (SanitizeWireScope v) = SanitizeWireScope v
   \<and> list_all wire_char (SanitizeWireScope v)
   \<and> (SanitizeWireScope v = [] \<or> hd (SanitizeWireScope v) \<noteq> CHR ''-'' \<and> last (SanitizeWireScope v) \<noteq> CHR ''-'')"
  using Sanitize_edges [of v] by (auto simp: list_all_iff Sanitize_chars)

text \<open>Every id \<open>ConsulSourceID\<close> returns, configured or derived from the
  addresses, is non-empty and equal to its own Nacos wire scope, so that the
  raw source scope and the wire scope of a source coincide; and the derived id
  depends only on the set of trimmed, non-empty addresses.\<close>

theorem ConsulSourceID_wire_scope:
  assumes id: "ConsulSourceID configured addresses = Inr sid"
    and same: "trim_space ` set addresses - {[]} = trim_space ` set addresses' - {[]}"
  shows "sid \<noteq> [] \<and> SanitizeWireScope sid = sid
    \<and> ConsulSourceID configured addresses' = Inr sid"
proof (cases "trim_space configured = []")
  case False
  with id show ?thesis by (simp add: ConsulSourceID_def Let_def split: if_splits)
next
  case True
  define x where "x = sum256 (join '','' (sort (canonical_addresses [] addresses)))"
  have "sort (canonical_addresses [] addresses') = sort (canonical_addresses [] addresses)"
    using same by (intro canonical_addresses_sort) simp
  with True have "ConsulSourceID configured addresses' = Inr (''consul-'' @ hex_encode (take 6 x))"
    and "ConsulSourceID configured addresses = Inr (''consul-'' @ hex_encode (take 6 x))"
    by (simp_all add: ConsulSourceID_def Let_def x_def)
  moreover have "take 6 x \<noteq> []" by (simp add: x_def flip: length_0_conv)
  ultimately show ?thesis using id derived_id_scope [of "take 6 x"] by simp
qed

theorem ConsulSourceID_wire_scope_witness:
  "\<exists>sid. ConsulSourceID [] ['' a:1 '', ''b:2''] = Inr sid
    \<and> sid \<noteq> [] \<and> SanitizeWireScope sid = sid
    \<and> ConsulSourceID [] [''b:2'', ''a:1'', []] = Inr sid"
proof -
  obtain sid where sid: "ConsulSourceID [] ['' a:1 '', ''b:2''] = Inr sid"
    by (simp add: ConsulSourceID_def Let_def trim_space_def)
  have "trim_space ` set ['' a:1 '', ''b:2''] - {[]} = trim_space ` set [''b:2'', ''a:1'', []] - {[]}"
    by (auto simp: go_simps Let_def)
  from ConsulSourceID_wire_scope [OF sid this] sid show ?thesis by simp
qed

section \<open>Comparison\<close>

lemma map_of_ListToMap_from:
  "map_of (ListToMap_from m xs)
    = map_of m ++ map_of (rev (map (\<lambda>v. (IdentityKey v, v)) (drop_none xs)))"
  by (induction m xs rule: ListToMap_from.induct) (auto simp: map_add_def fun_eq_iff split: option.splits)

lemma map_of_ListToMap:
  "map_of (ListToMap xs) = map_of (rev (map (\<lambda>v. (IdentityKey v, v)) (drop_none xs)))"
  by (simp add: ListToMap_def map_of_ListToMap_from)

lemma ListToMap_None_iff:
  "map_of (ListToMap xs) k = None \<longleftrightarrow> (\<forall>x. Some x \<in> set xs \<longrightarrow> IdentityKey x \<noteq> k)"
  by (auto simp: map_of_ListToMap map_of_eq_None_iff image_iff)

lemma ListToMap_SomeD:
  "map_of (ListToMap xs) k = Some x \<Longrightarrow> Some x \<in> set xs \<and> IdentityKey x = k"
  by (auto simp: map_of_ListToMap dest: map_of_SomeD)

text \<open>The wire ids that occur once among the non-nil items.\<close>

definition sole :: "string \<Rightarrow> inst list \<Rightarrow> inst option" where
  "sole i xs = (case filter (\<lambda>x. InstanceId x = i) xs of [x] \<Rightarrow> if i = [] then None else Some x | _ \<Rightarrow> None)"

lemma sole_snoc:
  "sole i (xs @ [x]) = (if InstanceId x \<noteq> i then sole i xs
     else if i = [] \<or> filter (\<lambda>y. InstanceId y = i) xs \<noteq> [] then None else Some x)"
  by (cases "filter (\<lambda>y. InstanceId y = i) xs" rule: remdups_adj.cases) (simp_all add: sole_def)

lemma sole_None_iff:
  "sole i xs = None \<longleftrightarrow> i = [] \<or> length (filter (\<lambda>y. InstanceId y = i) xs) \<noteq> 1"
  by (cases "filter (\<lambda>y. InstanceId y = i) xs" rule: remdups_adj.cases) (simp_all add: sole_def)

text \<open>What the loop state says of the items already read.\<close>

definition wire_ids_of :: "(string \<times> inst) list \<Rightarrow> string list \<Rightarrow> inst list \<Rightarrow> bool" where
  "wire_ids_of res dup xs = (\<forall>i. map_of res i = sole i xs
     \<and> (i \<in> set dup \<longleftrightarrow> i \<noteq> [] \<and> 2 \<le> length (filter (\<lambda>x. InstanceId x = i) xs)))"

lemma wire_ids_skip:
  assumes "wire_ids_of res dup xs" and "InstanceId x = [] \<or> InstanceId x \<in> set dup"
  shows "wire_ids_of res dup (xs @ [x])"
  unfolding wire_ids_of_def
proof (intro allI conjI)
  fix i
  have i: "map_of res i = sole i xs"
    "i \<in> set dup \<longleftrightarrow> i \<noteq> [] \<and> 2 \<le> length (filter (\<lambda>x. InstanceId x = i) xs)"
    using assms(1) by (simp_all add: wire_ids_of_def)
  show "i \<in> set dup \<longleftrightarrow> i \<noteq> [] \<and> 2 \<le> length (filter (\<lambda>x. InstanceId x = i) (xs @ [x]))"
    using i(2) assms(2) by auto
  have "sole i xs = None" and "i = [] \<or> filter (\<lambda>y. InstanceId y = i) xs \<noteq> []" if "InstanceId x = i"
    using i(2) assms(2) that by (auto simp: sole_None_iff)
  then show "map_of res i = sole i (xs @ [x])" using i(1) by (simp add: sole_snoc)
qed

lemma wire_ids_dup:
  assumes "wire_ids_of res dup xs" and "InstanceId x \<noteq> []" and "map_of res (InstanceId x) \<noteq> None"
  shows "wire_ids_of (adel (InstanceId x) res) (InstanceId x # dup) (xs @ [x])"
proof -
  have one: "length (filter (\<lambda>y. InstanceId y = InstanceId x) xs) = 1"
    using assms sole_None_iff unfolding wire_ids_of_def by metis
  then have "filter (\<lambda>y. InstanceId y = InstanceId x) xs \<noteq> []" by auto
  with one assms show ?thesis unfolding wire_ids_of_def by (simp add: sole_snoc)
qed

lemma wire_ids_new:
  assumes "wire_ids_of res dup xs" and "InstanceId x \<noteq> []" and "InstanceId x \<notin> set dup"
    and "map_of res (InstanceId x) = None"
  shows "wire_ids_of (aupd (InstanceId x) x res) dup (xs @ [x])"
proof -
  have "length (filter (\<lambda>y. InstanceId y = InstanceId x) xs) \<noteq> 1"
    "length (filter (\<lambda>y. InstanceId y = InstanceId x) xs) < 2"
    using assms sole_None_iff unfolding wire_ids_of_def by (metis not_le)+
  then have "filter (\<lambda>y. InstanceId y = InstanceId x) xs = []"
    by (metis One_nat_def less_2_cases length_0_conv)
  with assms show ?thesis unfolding wire_ids_of_def by (simp add: sole_snoc)
qed

lemma uniqueWireIDs_from_spec:
  assumes "wire_ids_of res dup pre"
  shows "map_of (uniqueWireIDs_from res dup xs) i = sole i (pre @ drop_none xs)"
  using assms
proof (induction res dup xs arbitrary: pre rule: uniqueWireIDs_from.induct)
  case (3 res dup item xs)
  consider (skip) "InstanceId item = [] \<or> InstanceId item \<in> set dup"
    | (dup) "InstanceId item \<noteq> []" "InstanceId item \<notin> set dup" "map_of res (InstanceId item) \<noteq> None"
    | (new) "InstanceId item \<noteq> []" "InstanceId item \<notin> set dup" "map_of res (InstanceId item) = None"
    by blast
  then show ?case
  proof cases
    case skip
    then show ?thesis using "3.IH"(1) [OF skip wire_ids_skip [OF "3.prems" skip]] by simp
  next
    case dup
    then show ?thesis using "3.IH"(2) [OF _ _ wire_ids_dup [OF "3.prems"]] by simp
  next
    case new
    then show ?thesis using "3.IH"(3) [OF _ _ wire_ids_new [OF "3.prems"]] by simp
  qed
qed (simp_all add: wire_ids_of_def)

lemma map_of_uniqueWireIDs: "map_of (uniqueWireIDs xs) i = sole i (drop_none xs)"
  unfolding uniqueWireIDs_def
  by (subst uniqueWireIDs_from_spec [where pre = "[]"]) (simp_all add: wire_ids_of_def sole_def)

lemma soleD:
  assumes "sole i xs = Some x"
  shows "filter (\<lambda>y. InstanceId y = i) xs = [x] \<and> x \<in> set xs \<and> InstanceId x = i"
proof -
  from assms have f: "filter (\<lambda>y. InstanceId y = i) xs = [x]"
    by (auto simp: sole_def split: list.splits if_splits)
  then have "x \<in> {y \<in> set xs. InstanceId y = i}" unfolding set_filter [symmetric] by simp
  with f show ?thesis by simp
qed

lemma compare_provider_eq:
  "compare_provider partner diff xs =
    (filter (\<lambda>c. partner c = None) (drop_none xs),
     filter (\<lambda>c. case (partner c, diff) of (Some a, Some d) \<Rightarrow> d a c | _ \<Rightarrow> False) (drop_none xs))"
  by (induction partner diff xs rule: compare_provider.induct) (auto split: option.splits prod.splits)

abbreviation partner_in :: "insts \<Rightarrow> insts \<Rightarrow> inst \<Rightarrow> inst option" where
  "partner_in provider remote \<equiv>
     provider_partner (ListToMap remote) (uniqueWireIDs remote) (uniqueWireIDs provider)"

text \<open>Sample instances: one with a source key, one from before source keys with
  the same wire id, and one of another source.\<close>

definition sample_new :: inst where
  "sample_new = zero_inst\<lparr>InstanceId := ''i'', Provider := ''k8s'', SourceKey := ''k8s/c/i''\<rparr>"

definition sample_legacy :: inst where
  "sample_legacy = zero_inst\<lparr>InstanceId := ''i''\<rparr>"

definition sample_other :: inst where
  "sample_other = zero_inst\<lparr>InstanceId := ''i'', Provider := ''k8s'', SourceKey := ''k8s/d/i''\<rparr>"

lemma partner_SomeD:
  assumes "partner_in provider remote c = Some a"
  shows "Some a \<in> set remote \<and> (IdentityKey a = IdentityKey c
    \<or> InstanceId a = InstanceId c \<and> (isLegacy a \<or> isLegacy c)
      \<and> sole (InstanceId c) (drop_none remote) = Some a
      \<and> sole (InstanceId c) (drop_none provider) = Some c)"
  using assms unfolding provider_partner_def
  by (auto simp: map_of_uniqueWireIDs split: option.splits if_splits
      dest!: ListToMap_SomeD dest: soleD)

lemma partner_not_remoteOnly:
  assumes "partner_in provider remote c = Some a" and "Some c \<in> set provider"
  shows "remote_matched (ListToMap provider) (uniqueWireIDs remote) (uniqueWireIDs provider) a"
  using partner_SomeD [OF assms(1)] assms(2)
  by (auto simp: remote_matched_def map_of_uniqueWireIDs ListToMap_None_iff)

text \<open>\<open>CompareThreeWay\<close> classifies soundly.  A provider instance is either
  reported as provider-only or has one remote partner, which has its identity
  key or, when one of the two predates source keys, is the only remote instance
  with its wire id while the provider instance is the only provider one; it is
  reported as changed exactly when the policy says so of that partner; and no
  remote instance that is a partner is ever reported as remote-only, so that an
  instance that is kept is never also deleted.\<close>

theorem CompareThreeWay_sound:
  assumes "CompareThreeWay provider remote (Some diff) = (providerOnly, remoteOnly, changed)"
    and "Some c \<in> set provider" and "c \<notin> set providerOnly"
  shows "\<exists>a. Some a \<in> set remote \<and> a \<notin> set remoteOnly \<and> (c \<in> set changed \<longleftrightarrow> diff a c)
    \<and> (IdentityKey a = IdentityKey c
       \<or> (isLegacy a \<or> isLegacy c)
         \<and> filter (\<lambda>x. InstanceId x = InstanceId c) (drop_none remote) = [a]
         \<and> filter (\<lambda>x. InstanceId x = InstanceId c) (drop_none provider) = [c])"
proof -
  from assms obtain a where a: "partner_in provider remote c = Some a"
    by (auto simp: CompareThreeWay_def compare_provider_eq Let_def)
  have "c \<in> set changed \<longleftrightarrow> diff a c"
    using assms(1,2) a by (auto simp: CompareThreeWay_def compare_provider_eq Let_def split: option.splits)
  moreover have "a \<notin> set remoteOnly"
    using assms(1) partner_not_remoteOnly [OF a assms(2)] by (auto simp: CompareThreeWay_def compare_provider_eq Let_def)
  ultimately show ?thesis using partner_SomeD [OF a] soleD by blast
qed

theorem CompareThreeWay_sound_witness:
  "CompareThreeWay [Some sample_new] [Some sample_legacy, None] (Some (\<lambda>a b. Provider a \<noteq> Provider b))
     = ([], [], [sample_new])
   \<and> (\<exists>a. Some a \<in> set [Some sample_legacy, None] \<and> a \<notin> set []
        \<and> (sample_new \<in> set [sample_new] \<longleftrightarrow> Provider a \<noteq> Provider sample_new))"
proof -
  have c: "CompareThreeWay [Some sample_new] [Some sample_legacy, None] (Some (\<lambda>a b. Provider a \<noteq> Provider b))
      = ([], [], [sample_new])"
    by (simp add: sample_new_def sample_legacy_def zero_inst_def CompareThreeWay_def ListToMap_def
        uniqueWireIDs_def provider_partner_def remote_matched_def IdentityKey_def isLegacy_def go_get_def)
  from CompareThreeWay_sound [OF c, of sample_new] c show ?thesis by fastforce
qed

text \<open>C14: For instances that carry source keys the comparison is exact: an
  instance is provider-only iff no remote instance has its key, remote-only iff
  no provider instance has its key, in input order, and nothing is matched by
  wire id.\<close>

theorem CompareThreeWay_exact:
  assumes "\<And>x. Some x \<in> set provider \<union> set remote \<Longrightarrow> \<not> isLegacy x"
    and "CompareThreeWay provider remote diff = (providerOnly, remoteOnly, changed)"
  shows "providerOnly = filter (\<lambda>c. IdentityKey c \<notin> IdentityKey ` set (drop_none remote)) (drop_none provider)
    \<and> remoteOnly = filter (\<lambda>c. IdentityKey c \<notin> IdentityKey ` set (drop_none provider)) (drop_none remote)"
proof -
  have "partner_in provider remote c = None \<longleftrightarrow> IdentityKey c \<notin> IdentityKey ` set (drop_none remote)"
    if "Some c \<in> set provider" for c
  proof (cases "map_of (ListToMap remote) (IdentityKey c)")
    case None
    then have "partner_in provider remote c = None"
      using assms(1) that by (auto simp: provider_partner_def map_of_uniqueWireIDs split: option.splits dest!: soleD)
    with None show ?thesis by (auto simp: ListToMap_None_iff)
  next
    case (Some a)
    then have "IdentityKey c \<in> IdentityKey ` set (drop_none remote)" using ListToMap_SomeD [OF Some] by (auto simp: image_iff)
    with Some show ?thesis by (simp add: provider_partner_def)
  qed
  moreover have "remote_matched (ListToMap provider) (uniqueWireIDs remote) (uniqueWireIDs provider) c
      \<longleftrightarrow> IdentityKey c \<in> IdentityKey ` set (drop_none provider)" if "Some c \<in> set remote" for c
    using assms(1) that ListToMap_None_iff [of provider "IdentityKey c"]
    by (auto simp: remote_matched_def map_of_uniqueWireIDs image_iff split: option.splits dest!: soleD)
  ultimately show ?thesis
    using assms(2) by (auto simp: CompareThreeWay_def compare_provider_eq Let_def intro!: filter_cong)
qed

theorem CompareThreeWay_exact_witness:
  "\<exists>changed. CompareThreeWay [Some sample_new] [Some sample_other] None
     = ([sample_new], [sample_other], changed)"
proof -
  obtain a b c where abc: "CompareThreeWay [Some sample_new] [Some sample_other] None = (a, b, c)"
    by (metis prod_cases3)
  have "\<not> isLegacy x" if "Some x \<in> set [Some sample_new] \<union> set [Some sample_other]" for x
    using that by (auto simp: sample_new_def sample_other_def isLegacy_def)
  from CompareThreeWay_exact [OF this abc] abc show ?thesis
    by (simp add: IdentityKey_def sample_new_def sample_other_def)
qed

section \<open>Observations\<close>

text \<open>State and status of a pod observation agree: an online pod is in state
  running and an offline one is terminated, failed or unknown unless the event
  is a delete; in particular no pod that is still being probed, crashing,
  pending or evicted is ever published as online or offline.\<close>

theorem StatusOf_StateOf_agree:
  "(StatusOf obs = InstanceStatusOnline \<longrightarrow> StateOf obs = InstanceStateRunning)
   \<and> (StatusOf obs = InstanceStatusOffline \<longrightarrow>
       ObsEvent obs = ''delete''
       \<or> StateOf obs \<in> {InstanceStateTerminated, InstanceStateFailed, InstanceStateUnknown})
   \<and> StatusOf obs \<in> {InstanceStatusOnline, InstanceStatusUnhealthy, InstanceStatusOffline}"
  by (auto simp: StatusOf_def StateOf_def const_defs)

theorem StatusOf_StateOf_agree_witness:
  "let obs = \<lparr>Phase = ''Running'', PodReason = [], WaitingReason = [], LastTerminationReason = [],
      ContainerReady = True, ContainerRunning = True, Deleting = False, ObsLabels = [], ObsEnv = [],
      ObsEvent = ''add''\<rparr>
   in StatusOf obs = InstanceStatusOnline \<and> StateOf obs = InstanceStateRunning"
  using StatusOf_StateOf_agree [of "\<lparr>Phase = ''Running'', PodReason = [], WaitingReason = [],
      LastTerminationReason = [], ContainerReady = True, ContainerRunning = True, Deleting = False,
      ObsLabels = [], ObsEnv = [], ObsEvent = ''add''\<rparr>"]
  by (simp add: StatusOf_def const_defs)

end
