(* ===== verification/Sink_Port.thy ===== *)
theory Sink_Port
  imports Instance_Model
begin

text \<open>
  The sink port of src/internal/ports/ports.go.  A sink is an object with a
  state: \<open>'s\<close> is the type of its state and each method returns its result with
  the new state.  The optional interfaces the callers test for with a type
  assertion (\<open>FullOperationSink\<close>, \<open>Close\<close>) are optional methods.

  A \<open>Revalidate\<close> callback reads the provider's current snapshot, so its result
  depends on when it is called: it is a function of the moment of the call,
  and each operation that may call it is given that moment.
\<close>

type_synonym moment = nat
type_synonym revalidate = "(moment \<Rightarrow> insts option) option"

definition OperateTypeSync :: string where "OperateTypeSync = ''Sync''"
definition OperateTypeSyncAll :: string where "OperateTypeSyncAll = ''SyncAll''"

record RetryOperation =
  OpSink :: string
  OpOperate :: string
  OpProvider :: string
  OpScope :: string
  OpBatchID :: string
  OpIdentity :: string
  OpRevision :: int64
  OpSequence :: "64 word"
  OpTrigger :: int64
  OpInstances :: insts
  OpRevalidate :: revalidate
  OpEmptyConfirmed :: bool

definition zero_op :: RetryOperation where
  "zero_op = \<lparr>OpSink = [], OpOperate = [], OpProvider = [], OpScope = [], OpBatchID = [],
     OpIdentity = [], OpRevision = 0, OpSequence = 0, OpTrigger = 0, OpInstances = [],
     OpRevalidate = None, OpEmptyConfirmed = False\<rparr>"

record 's sink =
  s_Push :: "int64 \<Rightarrow> insts \<Rightarrow> 's \<Rightarrow> error \<times> 's"
  s_PushAll :: "int64 \<Rightarrow> insts \<Rightarrow> 's \<Rightarrow> error \<times> 's"
  s_PushAllOperation :: "(RetryOperation \<Rightarrow> 's \<Rightarrow> error \<times> 's) option"
  s_GetAll :: "int32 list \<Rightarrow> string \<Rightarrow> 's \<Rightarrow> inst option list result"
  s_Close :: "('s \<Rightarrow> error \<times> 's) option"

text \<open>A sink that records the calls it receives and answers them with a given
  function: the observer used in statements about what reaches the network.\<close>

datatype sink_call =
    CallPush int64 insts
  | CallPushAll int64 insts
  | CallPushAllOperation RetryOperation

definition trace_sink :: "(sink_call list \<Rightarrow> sink_call \<Rightarrow> error) \<Rightarrow> sink_call list sink" where
  "trace_sink ans = \<lparr>
     s_Push = (\<lambda>t xs tr. (ans tr (CallPush t xs), tr @ [CallPush t xs])),
     s_PushAll = (\<lambda>t xs tr. (ans tr (CallPushAll t xs), tr @ [CallPushAll t xs])),
     s_PushAllOperation = Some (\<lambda>op tr. (ans tr (CallPushAllOperation op), tr @ [CallPushAllOperation op])),
     s_GetAll = (\<lambda>_ _ _. Inr []),
     s_Close = None\<rparr>"

end
