(* ===== verification/Ordered_Sink.thy ===== *)
theory Ordered_Sink
  imports Sink_Port
begin

text \<open>
  The per-sink write gate of src/pkg/worker/fanout.go: \<open>recordingSink\<close>, which
  observes every push, and \<open>orderedSink\<close>, which keeps for every identity the
  last accepted revision and whether the identity was removed (a tombstone),
  drops superseded work and refuses full snapshots that are not safe to prune
  by.

  \<open>runLocked\<close> has the three phases of the code: the gate, under \<open>latestMu\<close>,
  decides whether the items are rejected, skipped or forwarded; the call of the
  inner sink runs without that lock; the commit, under the lock again, updates
  the ledger when the call succeeded.
\<close>

section \<open>The recording decorator\<close>

text \<open>The state of the inner sink and the observations made so far: the
  outcome label of each push, under the name of the sink.\<close>

type_synonym 's recording = "'s \<times> (string \<times> string) list"

definition observe :: "string \<Rightarrow> error \<Rightarrow> (string \<times> string) list \<Rightarrow> (string \<times> string) list" where
  "observe name err obs = obs @ [(name, if err \<noteq> None then ''error'' else ''ok'')]"

definition recordingSink :: "string \<Rightarrow> 's sink \<Rightarrow> 's recording sink" where
  "recordingSink name inner = \<lparr>
     s_Push = (\<lambda>t xs (s, obs). let (err, s') = s_Push inner t xs s in (err, (s', observe name err obs))),
     s_PushAll = (\<lambda>t xs (s, obs). let (err, s') = s_PushAll inner t xs s in (err, (s', observe name err obs))),
     s_PushAllOperation = Some (\<lambda>op (s, obs).
       let (err, s') = (case s_PushAllOperation inner of
                          Some f \<Rightarrow> f op s
                        | None \<Rightarrow> s_PushAll inner (OpTrigger op) (OpInstances op) s)
       in (err, (s', observe name err obs))),
     s_GetAll = (\<lambda>sts p (s, obs). s_GetAll inner sts p s),
     s_Close = Some (\<lambda>(s, obs). case s_Close inner of
                          Some f \<Rightarrow> (let (err, s') = f s in (err, (s', obs)))
                        | None \<Rightarrow> (None, (s, obs)))\<rparr>"

section \<open>The ledger\<close>

record identityRevision =
  revision :: int64
  tombstone :: bool

type_synonym ledger = "(string \<times> identityRevision) list"

record 's orderedSink =
  inner_state :: 's
  latest :: ledger
  identityScope :: gomap
  closed :: bool
  lastFullScope :: string
  lastFullBatchID :: string

definition new_orderedSink :: "'s \<Rightarrow> 's orderedSink" where
  "new_orderedSink s = \<lparr>inner_state = s, latest = [], identityScope = [], closed = False,
     lastFullScope = [], lastFullBatchID = []\<rparr>"

definition errSinkClosed :: go_err where "errSinkClosed = ErrNew ''worker: sink is closed''"

section \<open>The gate\<close>

record gate_state =
  filtered :: "inst list"
  accepted :: ledger
  seen :: "string list"
  stale :: bool

definition rev_of :: "int64 \<Rightarrow> inst \<Rightarrow> int64" where
  "rev_of trigger item = (if Reversion item = 0 then trigger else Reversion item)"

definition staleRevision :: "identityRevision \<Rightarrow> int64 \<Rightarrow> bool" where
  "staleRevision previous rv = ((tombstone previous \<and> rv \<le> revision previous)
     \<or> (\<not> tombstone previous \<and> rv < revision previous))"

text \<open>\<open>full && trustedComplete && revalidated\<close> is the argument \<open>heal\<close>.\<close>

definition trustedEqualRevisionHeal :: "bool \<Rightarrow> identityRevision \<Rightarrow> int64 \<Rightarrow> inst \<Rightarrow> bool" where
  "trustedEqualRevisionHeal heal previous rv item =
     (heal \<and> tombstone previous \<and> rv = revision previous \<and> Status item \<noteq> InstanceStatusOffline)"

definition gate_rejects :: "ledger \<Rightarrow> bool \<Rightarrow> int64 \<Rightarrow> inst \<Rightarrow> bool" where
  "gate_rejects lat heal rv item = (case map_of lat (IdentityKey item) of
      None \<Rightarrow> False
    | Some previous \<Rightarrow> staleRevision previous rv \<and> \<not> trustedEqualRevisionHeal heal previous rv item)"

fun gate_loop :: "ledger \<Rightarrow> int64 \<Rightarrow> bool \<Rightarrow> bool \<Rightarrow> gate_state \<Rightarrow> insts \<Rightarrow> gate_state result" where
  "gate_loop lat trigger full heal g [] = Inr g"
| "gate_loop lat trigger full heal g (None # xs) = gate_loop lat trigger full heal g xs"
| "gate_loop lat trigger full heal g (Some item # xs) =
    (let key = IdentityKey item in
     if full \<and> key \<in> set (seen g) then
       Inl (ErrNew (''worker: duplicate identity in full push: '' @ key))
     else
       let g = (if full then g\<lparr>seen := key # seen g\<rparr> else g);
           rv = rev_of trigger item
       in if gate_rejects lat heal rv item
          then gate_loop lat trigger full heal (g\<lparr>stale := True\<rparr>) xs
          else gate_loop lat trigger full heal
                 (g\<lparr>accepted := aupd key \<lparr>revision = rv, tombstone = (Status item = InstanceStatusOffline)\<rparr> (accepted g),
                    filtered := filtered g @ [item]\<rparr>) xs)"

definition gate_start :: gate_state where
  "gate_start = \<lparr>filtered = [], accepted = [], seen = [], stale = False\<rparr>"

text \<open>A live identity of the ledger that the snapshot does not mention.\<close>

definition misses_live :: "ledger \<Rightarrow> string list \<Rightarrow> bool" where
  "misses_live lat keys = (\<exists>(key, state) \<in> set lat. \<not> tombstone state \<and> key \<notin> set keys)"

datatype gate_result = Reject go_err | Skip | Forward gate_state

definition gate :: "ledger \<Rightarrow> int64 \<Rightarrow> insts \<Rightarrow> bool \<Rightarrow> bool \<Rightarrow> bool \<Rightarrow> gate_result" where
  "gate lat trigger items full trustedComplete revalidated =
    (case gate_loop lat trigger full (full \<and> trustedComplete \<and> revalidated) gate_start items of
       Inl e \<Rightarrow> Reject e
     | Inr g \<Rightarrow>
        if full \<and> \<not> trustedComplete \<and> misses_live lat (seen g) then Reject errStaleFullPush
        else if full \<and> stale g then Reject errStaleFullPush
        else if filtered g = [] \<and> items \<noteq> [] then Skip
        else Forward g)"

section \<open>The call and the commit\<close>

definition call_inner :: "'s sink \<Rightarrow> int64 \<Rightarrow> bool \<Rightarrow> RetryOperation option \<Rightarrow> inst list \<Rightarrow> 's \<Rightarrow> error \<times> 's" where
  "call_inner ops trigger full operation items s =
    (if full then
       (case operation of
          Some op \<Rightarrow>
            (case s_PushAllOperation ops of
               Some f \<Rightarrow> f (op\<lparr>OpInstances := map Some items\<rparr>) s
             | None \<Rightarrow> s_PushAll ops trigger (map Some items) s)
        | None \<Rightarrow> s_PushAll ops trigger (map Some items) s)
     else s_Push ops trigger (map Some items) s)"

definition out_of_scope :: "RetryOperation option \<Rightarrow> gomap \<Rightarrow> string \<Rightarrow> bool" where
  "out_of_scope operation scopes key = (case operation of
      None \<Rightarrow> False
    | Some op \<Rightarrow> OpScope op \<noteq> [] \<and> go_get scopes key \<noteq> OpScope op)"

definition tombstone_absent :: "RetryOperation option \<Rightarrow> gomap \<Rightarrow> string list \<Rightarrow> ledger \<Rightarrow> ledger" where
  "tombstone_absent operation scopes keys lat =
     map (\<lambda>(key, state).
       (key, if tombstone state then state
             else if out_of_scope operation scopes key then state
             else if key \<notin> set keys then \<lparr>revision = revision state, tombstone = True\<rparr>
             else state)) lat"

definition commit :: "bool \<Rightarrow> bool \<Rightarrow> RetryOperation option \<Rightarrow> gate_state \<Rightarrow> 's orderedSink \<Rightarrow> 's orderedSink" where
  "commit full trustedComplete operation g s =
    (let lat = (if full \<and> trustedComplete
                then tombstone_absent operation (identityScope s) (seen g) (latest s)
                else latest s)
     in s\<lparr>latest := fold (\<lambda>(key, state). aupd key state) (accepted g) lat,
          identityScope := (case operation of
             None \<Rightarrow> identityScope s
           | Some op \<Rightarrow> if OpScope op \<noteq> []
                        then fold (\<lambda>(key, state). aupd key (OpScope op)) (accepted g) (identityScope s)
                        else identityScope s)\<rparr>)"

definition runLocked ::
  "'s sink \<Rightarrow> int64 \<Rightarrow> insts \<Rightarrow> bool \<Rightarrow> bool \<Rightarrow> bool \<Rightarrow> RetryOperation option \<Rightarrow> 's orderedSink \<Rightarrow> error \<times> 's orderedSink" where
  "runLocked ops trigger items full trustedComplete revalidated operation s =
    (if closed s then (Some errSinkClosed, s)
     else case gate (latest s) trigger items full trustedComplete revalidated of
       Reject e \<Rightarrow> (Some e, s)
     | Skip \<Rightarrow> (None, s)
     | Forward g \<Rightarrow>
        let (err, i) = call_inner ops trigger full operation (filtered g) (inner_state s);
            s = s\<lparr>inner_state := i\<rparr>
        in if err = None then (None, commit full trustedComplete operation g s) else (err, s))"

section \<open>The methods\<close>

definition os_Push :: "'s sink \<Rightarrow> int64 \<Rightarrow> insts \<Rightarrow> 's orderedSink \<Rightarrow> error \<times> 's orderedSink" where
  "os_Push ops trigger items = runLocked ops trigger items False False False None"

definition os_PushAll :: "'s sink \<Rightarrow> int64 \<Rightarrow> insts \<Rightarrow> 's orderedSink \<Rightarrow> error \<times> 's orderedSink" where
  "os_PushAll ops trigger items = runLocked ops trigger items True False False None"

definition os_PushAllWithRevalidate ::
  "'s sink \<Rightarrow> moment \<Rightarrow> int64 \<Rightarrow> insts \<Rightarrow> revalidate \<Rightarrow> 's orderedSink \<Rightarrow> error \<times> 's orderedSink" where
  "os_PushAllWithRevalidate ops now trigger items revalidate s =
    (if closed s then (Some errSinkClosed, s)
     else case revalidate of
       None \<Rightarrow> runLocked ops trigger items True True False None s
     | Some f \<Rightarrow> (case f now of
          None \<Rightarrow> (None, s)
        | Some fresh \<Rightarrow> runLocked ops trigger fresh True True True None s))"

definition full_operation ::
  "'s sink \<Rightarrow> RetryOperation \<Rightarrow> bool \<Rightarrow> 's orderedSink \<Rightarrow> error \<times> 's orderedSink" where
  "full_operation ops op revalidated s =
    (if OpScope op \<noteq> [] \<and> OpInstances op = [] \<and> \<not> OpEmptyConfirmed op then (None, s)
     else
       let s = s\<lparr>lastFullScope := OpScope op, lastFullBatchID := OpBatchID op\<rparr>;
           destructiveAuthorized = (OpScope op \<noteq> [] \<and> (OpInstances op \<noteq> [] \<or> OpEmptyConfirmed op))
       in runLocked ops (OpTrigger op) (OpInstances op) True destructiveAuthorized revalidated (Some op) s)"

definition os_PushAllOperation ::
  "'s sink \<Rightarrow> moment \<Rightarrow> RetryOperation \<Rightarrow> 's orderedSink \<Rightarrow> error \<times> 's orderedSink" where
  "os_PushAllOperation ops now op s =
    (if closed s then (Some errSinkClosed, s)
     else case OpRevalidate op of
       None \<Rightarrow> full_operation ops op False s
     | Some f \<Rightarrow> (case f now of
          None \<Rightarrow> (None, s)
        | Some fresh \<Rightarrow> full_operation ops (op\<lparr>OpInstances := fresh\<rparr>) True s))"

definition os_Close :: "'s sink \<Rightarrow> 's orderedSink \<Rightarrow> error \<times> 's orderedSink" where
  "os_Close ops s =
    (if closed s then (None, s)
     else let s = s\<lparr>closed := True, latest := [], identityScope := []\<rparr> in
       case s_Close ops of
         Some f \<Rightarrow> (let (err, i) = f (inner_state s) in (err, s\<lparr>inner_state := i\<rparr>))
       | None \<Rightarrow> (None, s))"

definition os_GetAll :: "'s sink \<Rightarrow> int32 list \<Rightarrow> string \<Rightarrow> 's orderedSink \<Rightarrow> insts result" where
  "os_GetAll ops statuses provider s = s_GetAll ops statuses provider (inner_state s)"

section \<open>What the gate computes\<close>

definition admits :: "ledger \<Rightarrow> int64 \<Rightarrow> bool \<Rightarrow> inst \<Rightarrow> bool" where
  "admits lat trigger heal item = (\<not> gate_rejects lat heal (rev_of trigger item) item)"

definition entry_of :: "int64 \<Rightarrow> inst \<Rightarrow> identityRevision" where
  "entry_of trigger item =
     \<lparr>revision = rev_of trigger item, tombstone = (Status item = InstanceStatusOffline)\<rparr>"

lemma gate_loop_Inr:
  assumes "gate_loop lat trigger full heal g xs = Inr g'"
  shows "filtered g' = filtered g @ filter (admits lat trigger heal) (drop_none xs)
    \<and> map_of (accepted g') = map_of (accepted g) ++
        map_of (rev (map (\<lambda>i. (IdentityKey i, entry_of trigger i)) (filter (admits lat trigger heal) (drop_none xs))))
    \<and> (stale g' \<longleftrightarrow> stale g \<or> (\<exists>i \<in> set (drop_none xs). \<not> admits lat trigger heal i))
    \<and> seen g' = (if full then rev (map IdentityKey (drop_none xs)) @ seen g else seen g)"
  using assms
proof (induction lat trigger full heal g xs rule: gate_loop.induct)
  case (3 lat trigger full heal g item xs)
  let ?g1 = "if full then g\<lparr>seen := IdentityKey item # seen g\<rparr> else g"
  have nd: "\<not> (full \<and> IdentityKey item \<in> set (seen g))" using "3.prems" by (auto simp: Let_def)
  show ?case
  proof (cases "admits lat trigger heal item")
    case True
    then have "\<not> gate_rejects lat heal (rev_of trigger item) item" by (simp add: admits_def)
    with "3.prems" nd "3.IH"(2) [OF refl nd refl refl this] True show ?thesis
      by (simp add: Let_def entry_of_def map_add_upd_left flip: map_add_upd)
        (auto simp: fun_eq_iff map_add_def split: option.splits)
  next
    case False
    then have "gate_rejects lat heal (rev_of trigger item) item" by (simp add: admits_def)
    with "3.prems" nd "3.IH"(1) [OF refl nd refl refl this] False show ?thesis
      by (auto simp: Let_def)
  qed
qed simp_all

lemma gate_loop_distinct:
  assumes "gate_loop lat trigger True heal g xs = Inr g'" and "distinct (seen g)"
  shows "distinct (seen g')"
  using assms
  by (induction lat trigger True heal g xs rule: gate_loop.induct)
    (auto simp: Let_def split: if_splits)

lemma gate_loop_partial:
  "\<exists>g'. gate_loop lat trigger False heal g xs = Inr g'"
  by (induction lat trigger False heal g xs rule: gate_loop.induct) (auto simp: Let_def)

lemma gate_loop_wf:
  assumes "gate_loop lat trigger full heal g xs = Inr g'" and "awf (accepted g)"
  shows "awf (accepted g')"
  using assms
  by (induction lat trigger full heal g xs rule: gate_loop.induct)
    (auto simp: Let_def split: if_splits)

text \<open>The ledger entry a forwarded batch gives a key: the one of its last item.\<close>

definition batch_entry :: "int64 \<Rightarrow> inst list \<Rightarrow> string \<Rightarrow> identityRevision option" where
  "batch_entry trigger items = map_of (rev (map (\<lambda>i. (IdentityKey i, entry_of trigger i)) items))"

lemma batch_entry_SomeD:
  "batch_entry trigger items k = Some e \<Longrightarrow> \<exists>i \<in> set items. IdentityKey i = k \<and> e = entry_of trigger i"
  unfolding batch_entry_def by (auto dest!: map_of_SomeD)

lemma batch_entry_None_iff:
  "batch_entry trigger items k = None \<longleftrightarrow> k \<notin> IdentityKey ` set items"
  by (auto simp: batch_entry_def map_of_eq_None_iff image_iff)

lemma gate_Forward:
  assumes "gate lat trigger items full trusted revalidated = Forward g"
  shows "filtered g = filter (admits lat trigger (full \<and> trusted \<and> revalidated)) (drop_none items)"
    and "map_of (accepted g) = batch_entry trigger (filtered g)"
    and "full \<Longrightarrow> filtered g = drop_none items"
    and "full \<Longrightarrow> set (seen g) = IdentityKey ` set (drop_none items)"
    and "full \<Longrightarrow> distinct (map IdentityKey (drop_none items))"
    and "full \<Longrightarrow> \<not> trusted \<Longrightarrow> \<not> misses_live lat (seen g)"
    and "awf (accepted g)"
proof -
  let ?h = "full \<and> trusted \<and> revalidated"
  from assms have g: "gate_loop lat trigger full ?h gate_start items = Inr g"
    and st: "full \<Longrightarrow> \<not> stale g" and ml: "full \<Longrightarrow> \<not> trusted \<Longrightarrow> \<not> misses_live lat (seen g)"
    by (auto simp: gate_def split: sum.splits if_splits)
  note spec = gate_loop_Inr [OF g]
  show fi: "filtered g = filter (admits lat trigger ?h) (drop_none items)"
    using spec by (simp add: gate_start_def)
  show "map_of (accepted g) = batch_entry trigger (filtered g)"
    using spec by (simp add: gate_start_def batch_entry_def)
  show "filtered g = drop_none items" if full
    using spec st that fi by (simp add: gate_start_def filter_id_conv)
  show "set (seen g) = IdentityKey ` set (drop_none items)" if full
    using spec that by (simp add: gate_start_def)
  show "distinct (map IdentityKey (drop_none items))" if full
  proof -
    have "distinct (seen g)" using gate_loop_distinct g that by (simp add: gate_start_def)
    then show ?thesis using spec that by (simp add: gate_start_def)
  qed
  show "full \<Longrightarrow> \<not> trusted \<Longrightarrow> \<not> misses_live lat (seen g)" by (rule ml)
  show "awf (accepted g)" using gate_loop_wf [OF g] by (simp add: gate_start_def)
qed

lemma gate_push:
  "gate lat trigger items False trusted revalidated =
    (let xs = filter (admits lat trigger False) (drop_none items) in
     if xs = [] \<and> items \<noteq> [] then Skip
     else Forward (THE g. gate_loop lat trigger False False gate_start items = Inr g))"
proof -
  obtain g where g: "gate_loop lat trigger False False gate_start items = Inr g"
    using gate_loop_partial by blast
  with gate_loop_Inr [OF g] show ?thesis by (simp add: gate_def gate_start_def Let_def)
qed

lemma admitted_advances:
  assumes "admits lat trigger heal item" and "map_of lat (IdentityKey item) = Some r"
  shows "revision r \<le> rev_of trigger item
    \<and> (tombstone r \<longrightarrow> revision r < rev_of trigger item \<or> heal \<and> Status item \<noteq> InstanceStatusOffline)"
  using assms
  by (auto simp: admits_def gate_rejects_def staleRevision_def trustedEqualRevisionHeal_def)

section \<open>The ledger after a push\<close>

lemma map_of_tombstone_absent:
  "map_of (tombstone_absent operation scopes keys lat) k =
     map_option (\<lambda>state. if tombstone state \<or> out_of_scope operation scopes k \<or> k \<in> set keys then state
       else \<lparr>revision = revision state, tombstone = True\<rparr>) (map_of lat k)"
  unfolding tombstone_absent_def map_of_map_key by (intro option.map_cong0) simp

lemma latest_commit:
  assumes "gate (latest s) trigger items full trusted revalidated = Forward g"
  shows "map_of (latest (commit full trusted operation g s)) k =
    (case batch_entry trigger (filtered g) k of
       Some e \<Rightarrow> Some e
     | None \<Rightarrow>
        if full \<and> trusted
        then map_option (\<lambda>state. if tombstone state \<or> out_of_scope operation (identityScope s) k then state
               else \<lparr>revision = revision state, tombstone = True\<rparr>) (map_of (latest s) k)
        else map_of (latest s) k)"
proof -
  note g = gate_Forward [OF assms]
  have "k \<notin> set (seen g)" if full "batch_entry trigger (filtered g) k = None"
    using g(3,4) that batch_entry_None_iff [of trigger "filtered g" k] by simp
  then show ?thesis
    using g(2,7) by (cases "full \<and> trusted"; cases "batch_entry trigger (filtered g) k")
      (auto simp: commit_def Let_def map_of_fold_aupd_awf map_of_tombstone_absent map_add_def)
qed

lemma runLocked_cases:
  assumes "runLocked ops trigger items full trusted revalidated operation s = (err, s')"
  obtains (same) "s' = s"
  | (failed) g i where "\<not> closed s" "gate (latest s) trigger items full trusted revalidated = Forward g"
      "call_inner ops trigger full operation (filtered g) (inner_state s) = (err, i)" "err \<noteq> None"
      "s' = s\<lparr>inner_state := i\<rparr>"
  | (committed) g i where "\<not> closed s" "gate (latest s) trigger items full trusted revalidated = Forward g"
      "call_inner ops trigger full operation (filtered g) (inner_state s) = (None, i)" "err = None"
      "s' = commit full trusted operation g (s\<lparr>inner_state := i\<rparr>)"
  using assms
  by (auto simp: runLocked_def Let_def split: if_splits gate_result.splits prod.splits)

lemma commit_frame [simp]:
  "closed (commit full trusted operation g s) = closed s"
  "inner_state (commit full trusted operation g s) = inner_state s"
  by (simp_all add: commit_def Let_def)

section \<open>The interface: a ledger of revisions\<close>

text \<open>What every user of the gate relies on: a step never lowers the revision
  of an identity and brings a removed identity back only at a higher revision,
  unless the step is a revalidated full snapshot.  The history lemmas are
  proved once from the law of a single step.\<close>

definition advances :: "bool \<Rightarrow> identityRevision \<Rightarrow> identityRevision \<Rightarrow> bool" where
  "advances heal r r' = (revision r \<le> revision r'
     \<and> (tombstone r \<and> \<not> tombstone r' \<longrightarrow> revision r < revision r' \<or> heal))"

lemma advances_refl [simp]: "advances h r r"
  by (simp add: advances_def)

lemma advances_trans: "advances h r r' \<Longrightarrow> advances h' r' r'' \<Longrightarrow> advances (h \<or> h') r r''"
  by (auto simp: advances_def)

locale revision_ledger =
  fixes step :: "'c \<Rightarrow> 's \<Rightarrow> 's"
    and entry :: "'s \<Rightarrow> string \<Rightarrow> identityRevision option"
    and live :: "'s \<Rightarrow> bool"
    and heals :: "'c \<Rightarrow> bool"
  assumes dead: "\<not> live s \<Longrightarrow> \<not> live (step c s)"
    and step_advances: "live (step c s) \<Longrightarrow> entry s k = Some r
      \<Longrightarrow> \<exists>r'. entry (step c s) k = Some r' \<and> advances (heals c) r r'"
begin

lemma dead_history: "\<not> live s \<Longrightarrow> \<not> live (fold step cs s)"
  by (induction cs arbitrary: s) (auto dest: dead)

lemma history:
  assumes "live (fold step cs s)" and "entry s k = Some r"
  shows "\<exists>r'. entry (fold step cs s) k = Some r' \<and> advances (\<exists>c \<in> set cs. heals c) r r'"
  using assms
proof (induction cs arbitrary: s r)
  case (Cons c cs)
  then have "live (step c s)" using dead_history by auto
  with Cons.prems obtain r1 where "entry (step c s) k = Some r1" "advances (heals c) r r1"
    using step_advances by blast
  with Cons show ?case using advances_trans by fastforce
qed simp

end

datatype os_call =
    OsPush int64 insts
  | OsPushAll int64 insts
  | OsPushAllWithRevalidate moment int64 insts revalidate
  | OsPushAllOperation moment RetryOperation
  | OsClose

fun os_apply :: "'s sink \<Rightarrow> os_call \<Rightarrow> 's orderedSink \<Rightarrow> error \<times> 's orderedSink" where
  "os_apply ops (OsPush t xs) s = os_Push ops t xs s"
| "os_apply ops (OsPushAll t xs) s = os_PushAll ops t xs s"
| "os_apply ops (OsPushAllWithRevalidate now t xs f) s = os_PushAllWithRevalidate ops now t xs f s"
| "os_apply ops (OsPushAllOperation now op) s = os_PushAllOperation ops now op s"
| "os_apply ops OsClose s = os_Close ops s"

fun os_heals :: "os_call \<Rightarrow> bool" where
  "os_heals (OsPushAllWithRevalidate now t xs f) = (f \<noteq> None)"
| "os_heals (OsPushAllOperation now op) = (OpRevalidate op \<noteq> None)"
| "os_heals _ = False"

lemma commit_advances:
  assumes "gate (latest s) trigger items full trusted revalidated = Forward g"
    and "map_of (latest s) k = Some r"
  shows "\<exists>r'. map_of (latest (commit full trusted operation g s)) k = Some r'
    \<and> advances (full \<and> trusted \<and> revalidated) r r'"
proof (cases "batch_entry trigger (filtered g) k")
  case None
  then show ?thesis using assms by (simp add: latest_commit [OF assms(1)] advances_def)
next
  case (Some e)
  then obtain i where i: "i \<in> set (filtered g)" "IdentityKey i = k" "e = entry_of trigger i"
    using batch_entry_SomeD by blast
  then have "admits (latest s) trigger (full \<and> trusted \<and> revalidated) i"
    using gate_Forward(1) [OF assms(1)] by simp
  from admitted_advances [OF this] i assms(2) have "advances (full \<and> trusted \<and> revalidated) r e"
    by (auto simp: advances_def entry_of_def)
  with Some show ?thesis by (simp add: latest_commit [OF assms(1)])
qed

lemma runLocked_advances:
  assumes "map_of (latest s) k = Some r"
  shows "\<exists>r'. map_of (latest (snd (runLocked ops trigger items full trusted revalidated operation s))) k = Some r'
    \<and> advances (full \<and> trusted \<and> revalidated) r r'"
proof -
  obtain err s' where run: "runLocked ops trigger items full trusted revalidated operation s = (err, s')"
    by fastforce
  then show ?thesis
  proof (cases rule: runLocked_cases)
    case (committed g i)
    then have "gate (latest (s\<lparr>inner_state := i\<rparr>)) trigger items full trusted revalidated = Forward g" by simp
    from commit_advances [OF this, of k r operation] assms committed run show ?thesis by simp
  qed (use assms run in simp_all)
qed

lemma runLocked_closed [simp]:
  "closed (snd (runLocked ops trigger items full trusted revalidated operation s)) = closed s"
proof -
  obtain err s' where run: "runLocked ops trigger items full trusted revalidated operation s = (err, s')"
    by fastforce
  then show ?thesis by (cases rule: runLocked_cases) (use run in simp_all)
qed

lemma full_operation_advances:
  assumes "map_of (latest s) k = Some r"
  shows "\<exists>r'. map_of (latest (snd (full_operation ops op revalidated s))) k = Some r' \<and> advances revalidated r r'"
proof -
  let ?s = "s\<lparr>lastFullScope := OpScope op, lastFullBatchID := OpBatchID op\<rparr>"
  have "map_of (latest ?s) k = Some r" using assms by simp
  from runLocked_advances [OF this, of ops "OpTrigger op" "OpInstances op" True _ revalidated "Some op"] assms
  show ?thesis by (fastforce simp: full_operation_def Let_def advances_def)
qed

lemma os_apply_advances:
  assumes "\<not> closed (snd (os_apply ops c s))" and "map_of (latest s) k = Some r"
  shows "\<exists>r'. map_of (latest (snd (os_apply ops c s))) k = Some r' \<and> advances (os_heals c) r r'"
proof (cases c)
  case (OsPushAllWithRevalidate now t xs f)
  then show ?thesis using assms runLocked_advances [OF assms(2), of ops t _ True True]
    by (auto simp: os_PushAllWithRevalidate_def split: option.splits)
next
  case (OsPushAllOperation now op)
  then show ?thesis using assms full_operation_advances [OF assms(2)]
    by (auto simp: os_PushAllOperation_def split: option.splits)
next
  case OsClose
  then show ?thesis using assms
    by (auto simp: os_Close_def Let_def split: if_splits option.splits prod.splits)
qed (use assms runLocked_advances [OF assms(2), of ops] in \<open>fastforce simp: os_Push_def os_PushAll_def\<close>)+

lemma os_apply_dead:
  assumes "closed s"
  shows "closed (snd (os_apply ops c s)) \<and> latest (snd (os_apply ops c s)) = latest s"
  using assms
  by (cases c) (simp_all add: os_Push_def os_PushAll_def runLocked_def os_PushAllWithRevalidate_def
      os_PushAllOperation_def os_Close_def)

interpretation os: revision_ledger "\<lambda>c s. snd (os_apply ops c s)" "\<lambda>s. map_of (latest s)"
  "\<lambda>s. \<not> closed s" os_heals for ops :: "'s sink"
  by unfold_locales (use os_apply_dead os_apply_advances in blast)+

text \<open>C2: The ledger of the write gate is monotone over every history of pushes,
  full pushes, revalidated pushes and operations: as long as the sink is not
  closed, no identity is forgotten and its revision never decreases, and an
  identity that was removed comes back only at a strictly higher revision
  unless some step was a revalidated snapshot.\<close>

theorem ledger_monotone_history:
  assumes "\<not> closed (fold (\<lambda>c s. snd (os_apply ops c s)) cs s)" and "map_of (latest s) k = Some r"
  shows "\<exists>r'. map_of (latest (fold (\<lambda>c s. snd (os_apply ops c s)) cs s)) k = Some r'
    \<and> revision r \<le> revision r'
    \<and> (tombstone r \<and> \<not> tombstone r' \<longrightarrow> revision r < revision r' \<or> (\<exists>c \<in> set cs. os_heals c))"
  using os.history [OF assms] unfolding advances_def by blast

section \<open>Samples\<close>

text \<open>Two identities of different sources, at revision 5, and a sink that
  accepts every call.\<close>

definition sample_a :: inst where
  "sample_a = zero_inst\<lparr>InstanceId := ''a'', SourceKey := ''k8s/a'', Reversion := 5, Status := 1\<rparr>"

definition sample_b :: inst where
  "sample_b = zero_inst\<lparr>InstanceId := ''b'', SourceKey := ''consul/b'', Reversion := 5, Status := 1\<rparr>"

abbreviation ok_sink :: "sink_call list sink" where
  "ok_sink \<equiv> trace_sink (\<lambda>_ _. None)"

definition sample_state :: "sink_call list orderedSink" where
  "sample_state = \<lparr>inner_state = [],
     latest = [(''k8s/a'', \<lparr>revision = 5, tombstone = False\<rparr>), (''consul/b'', \<lparr>revision = 5, tombstone = False\<rparr>)],
     identityScope = [(''k8s/a'', ''k8s''), (''consul/b'', ''consul-1'')], closed = False,
     lastFullScope = [], lastFullBatchID = []\<rparr>"

lemmas sample_simps = sample_a_def sample_b_def sample_state_def trace_sink_def zero_inst_def zero_op_def
  os_Push_def os_PushAll_def os_PushAllWithRevalidate_def os_PushAllOperation_def full_operation_def
  runLocked_def gate_def gate_start_def misses_live_def gate_rejects_def staleRevision_def
  trustedEqualRevisionHeal_def rev_of_def call_inner_def commit_def tombstone_absent_def
  out_of_scope_def IdentityKey_def go_get_def const_defs Let_def

theorem ledger_monotone_history_witness:
  "\<exists>r'. map_of (latest (fold (\<lambda>c s. snd (os_apply ok_sink c s)) [OsPush 9 [Some (sample_a\<lparr>Reversion := 7\<rparr>)]] sample_state)) ''k8s/a'' = Some r'
    \<and> 5 \<le> revision r'"
proof -
  let ?h = "fold (\<lambda>c s. snd (os_apply ok_sink c s)) [OsPush 9 [Some (sample_a\<lparr>Reversion := 7\<rparr>)]] sample_state"
  have "\<not> closed ?h" and "map_of (latest sample_state) ''k8s/a'' = Some \<lparr>revision = 5, tombstone = False\<rparr>"
    by (simp_all add: sample_simps)
  from ledger_monotone_history [OF this] show ?thesis by force
qed

section \<open>What reaches the sink\<close>

text \<open>C34: An incremental push hands the inner sink exactly the items whose
  revision is not behind the ledger (and is strictly ahead of it for a removed
  identity), in order and in one call; when nothing remains it makes no call
  and reports success; a closed sink makes no call and reports an error.\<close>

theorem os_Push_forwards_exactly_fresh:
  "let fresh = filter (\<lambda>i. case map_of (latest s) (IdentityKey i) of
                  None \<Rightarrow> True
                | Some r \<Rightarrow> if tombstone r then revision r < rev_of t i else revision r \<le> rev_of t i)
                (drop_none items);
       (err, s') = os_Push (trace_sink ans) t items s
   in if closed s then err = Some errSinkClosed \<and> inner_state s' = inner_state s
      else if fresh = [] \<and> items \<noteq> [] then err = None \<and> inner_state s' = inner_state s
      else err = ans (inner_state s) (CallPush t (map Some fresh))
        \<and> inner_state s' = inner_state s @ [CallPush t (map Some fresh)]"
proof -
  have fresh: "(\<lambda>i. case map_of (latest s) (IdentityKey i) of None \<Rightarrow> True
      | Some r \<Rightarrow> if tombstone r then revision r < rev_of t i else revision r \<le> rev_of t i)
      = admits (latest s) t False"
    by (auto simp: fun_eq_iff admits_def gate_rejects_def staleRevision_def trustedEqualRevisionHeal_def
        split: option.splits)
  obtain g where g: "gate_loop (latest s) t False False gate_start items = Inr g"
    using gate_loop_partial by blast
  then have "filtered g = filter (admits (latest s) t False) (drop_none items)"
    using gate_loop_Inr [OF g] by (simp add: gate_start_def)
  with g show ?thesis unfolding fresh
    by (auto simp: Let_def os_Push_def runLocked_def gate_def call_inner_def trace_sink_def
        split: prod.splits)
qed

lemma full_call:
  assumes "runLocked (trace_sink ans) t items True trusted revalidated operation s = (err, s')"
    and "inner_state s' \<noteq> inner_state s"
  shows "inner_state s' = inner_state s @ [case operation of
       None \<Rightarrow> CallPushAll t (map Some (drop_none items))
     | Some op \<Rightarrow> CallPushAllOperation (op\<lparr>OpInstances := map Some (drop_none items)\<rparr>)]"
    and "distinct (map IdentityKey (drop_none items))"
    and "\<not> trusted \<Longrightarrow> map_of (latest s) k = Some r \<Longrightarrow> \<not> tombstone r
       \<Longrightarrow> k \<in> IdentityKey ` set (drop_none items)"
    and "Some i \<in> set items \<Longrightarrow> map_of (latest s) (IdentityKey i) = Some r \<Longrightarrow> revision r \<le> rev_of t i"
proof -
  from assms obtain g where g: "gate (latest s) t items True trusted revalidated = Forward g"
    and i: "inner_state s' = snd (call_inner (trace_sink ans) t True operation (filtered g) (inner_state s))"
    by (cases rule: runLocked_cases) auto
  note f = gate_Forward [OF g]
  show "inner_state s' = inner_state s @ [case operation of
       None \<Rightarrow> CallPushAll t (map Some (drop_none items))
     | Some op \<Rightarrow> CallPushAllOperation (op\<lparr>OpInstances := map Some (drop_none items)\<rparr>)]"
    using i f(3) by (simp add: call_inner_def trace_sink_def split: option.split)
  show "distinct (map IdentityKey (drop_none items))" using f(5) by simp
  show "k \<in> IdentityKey ` set (drop_none items)"
    if "\<not> trusted" "map_of (latest s) k = Some r" "\<not> tombstone r"
    using f(4,6) that map_of_SomeD [of "latest s" k r] by (auto simp: misses_live_def)
  show "revision r \<le> rev_of t i" if "Some i \<in> set items" "map_of (latest s) (IdentityKey i) = Some r"
  proof -
    have "i \<in> set (filtered g)" using f(3) that by simp
    then have "admits (latest s) t (True \<and> trusted \<and> revalidated) i" unfolding f(1) by simp
    from admitted_advances [OF this that(2)] show ?thesis by simp
  qed
qed

text \<open>C3: A plain full push reaches the inner sink only as a complete and current
  snapshot: all its items, none of them behind the ledger, no identity twice,
  and every identity the ledger holds as live among them, so that a sink that
  prunes by the snapshot cannot remove a live instance.\<close>

theorem os_PushAll_prune_safe:
  assumes "os_PushAll (trace_sink ans) t items s = (err, s')" and "inner_state s' \<noteq> inner_state s"
  shows "inner_state s' = inner_state s @ [CallPushAll t (map Some (drop_none items))]
    \<and> distinct (map IdentityKey (drop_none items))
    \<and> (\<forall>k r. map_of (latest s) k = Some r \<and> \<not> tombstone r \<longrightarrow> k \<in> IdentityKey ` set (drop_none items))
    \<and> (\<forall>i r. Some i \<in> set items \<and> map_of (latest s) (IdentityKey i) = Some r \<longrightarrow> revision r \<le> rev_of t i)"
  using full_call [OF assms(1) [unfolded os_PushAll_def] assms(2)] by auto

theorem os_PushAll_prune_safe_witness:
  "os_PushAll ok_sink 9 [Some sample_a, None, Some sample_b] sample_state
     = (None, snd (os_PushAll ok_sink 9 [Some sample_a, None, Some sample_b] sample_state))
   \<and> inner_state (snd (os_PushAll ok_sink 9 [Some sample_a, None, Some sample_b] sample_state))
     = [CallPushAll 9 [Some sample_a, Some sample_b]]"
proof -
  let ?r = "os_PushAll ok_sink 9 [Some sample_a, None, Some sample_b] sample_state"
  have ok: "?r = (None, snd ?r)" and ne: "inner_state (snd ?r) \<noteq> inner_state sample_state"
    by (simp_all add: sample_simps)
  from os_PushAll_prune_safe [OF ok ne] ok show ?thesis by (simp add: sample_state_def)
qed

section \<open>Scopes\<close>

text \<open>The snapshot an operation publishes: the one its callback rebuilds, if
  it has one.\<close>

definition effective_instances :: "moment \<Rightarrow> RetryOperation \<Rightarrow> insts option" where
  "effective_instances now op = (case OpRevalidate op of None \<Rightarrow> Some (OpInstances op) | Some f \<Rightarrow> f now)"

lemma os_PushAllOperation_cases:
  "os_PushAllOperation ops now op s =
    (if closed s then (Some errSinkClosed, s)
     else case effective_instances now op of
       None \<Rightarrow> (None, s)
     | Some xs \<Rightarrow> full_operation ops (op\<lparr>OpInstances := xs\<rparr>) (OpRevalidate op \<noteq> None) s)"
  by (cases "OpRevalidate op") (auto simp: os_PushAllOperation_def effective_instances_def split: option.splits)

lemma gate_nonempty_Forward:
  assumes "runLocked ops t items True trusted revalidated operation s = (None, s')"
    and "\<not> closed s" and "items = [] \<or> drop_none items \<noteq> []"
  obtains g i where "gate (latest s) t items True trusted revalidated = Forward g"
    and "s' = commit True trusted operation g (s\<lparr>inner_state := i\<rparr>)"
proof -
  have "gate (latest s) t items True trusted revalidated \<noteq> Skip"
  proof
    assume sk: "gate (latest s) t items True trusted revalidated = Skip"
    then obtain g where g: "gate_loop (latest s) t True (True \<and> trusted \<and> revalidated) gate_start items = Inr g"
      "filtered g = []" "items \<noteq> []" "\<not> stale g"
      by (auto simp: gate_def split: sum.splits if_splits)
    with gate_loop_Inr [OF g(1)] assms(3) show False
      by (auto simp: gate_start_def filter_empty_conv)
  qed
  with assms that show thesis
    by (auto simp: runLocked_def Let_def split: gate_result.splits prod.splits if_splits)
qed

text \<open>C8: A scoped full operation that succeeds replaces the contents of its own
  scope in the ledger and nothing else: the identities of the snapshot get the
  snapshot's entries, a live identity of the scope that the snapshot omits is
  marked removed at its revision, and an identity of another scope keeps its
  entry.\<close>

theorem os_PushAllOperation_replaces_scope:
  assumes "os_PushAllOperation ops now op s = (None, s')"
    and "\<not> closed s" and "OpScope op \<noteq> []" and "effective_instances now op = Some xs"
    and "drop_none xs \<noteq> [] \<or> xs = [] \<and> OpEmptyConfirmed op"
  shows "map_of (latest s') k =
    (case batch_entry (OpTrigger op) (drop_none xs) k of
       Some e \<Rightarrow> Some e
     | None \<Rightarrow> map_option (\<lambda>r. if go_get (identityScope s) k = OpScope op then r\<lparr>tombstone := True\<rparr> else r)
                 (map_of (latest s) k))"
proof -
  let ?s = "s\<lparr>lastFullScope := OpScope op, lastFullBatchID := OpBatchID op\<rparr>"
  let ?op = "op\<lparr>OpInstances := xs\<rparr>"
  have "xs \<noteq> [] \<or> OpEmptyConfirmed op" using assms(5) by auto
  with assms(1-4) have run: "runLocked ops (OpTrigger op) xs True True (OpRevalidate op \<noteq> None) (Some ?op) ?s = (None, s')"
    by (auto simp: os_PushAllOperation_cases full_operation_def)
  obtain g i where g: "gate (latest ?s) (OpTrigger op) xs True True (OpRevalidate op \<noteq> None) = Forward g"
    and s': "s' = commit True True (Some ?op) g (?s\<lparr>inner_state := i\<rparr>)"
    by (rule gate_nonempty_Forward [OF run]) (use assms(2,5) in auto)
  have g': "gate (latest (?s\<lparr>inner_state := i\<rparr>)) (OpTrigger op) xs True True (OpRevalidate op \<noteq> None) = Forward g"
    using g by simp
  show ?thesis unfolding s' latest_commit [OF g']
    using gate_Forward(3) [OF g] assms(3)
    by (cases "map_of (latest s) k") (auto simp: out_of_scope_def split: option.splits)
qed

theorem os_PushAllOperation_replaces_scope_witness:
  "let op = zero_op\<lparr>OpScope := ''k8s'', OpTrigger := 9, OpEmptyConfirmed := True\<rparr>;
       s' = snd (os_PushAllOperation ok_sink 0 op sample_state)
   in map_of (latest s') ''k8s/a'' = Some \<lparr>revision = 5, tombstone = True\<rparr>
     \<and> map_of (latest s') ''consul/b'' = Some \<lparr>revision = 5, tombstone = False\<rparr>"
proof -
  let ?op = "zero_op\<lparr>OpScope := ''k8s'', OpTrigger := 9, OpEmptyConfirmed := True\<rparr>"
  let ?r = "os_PushAllOperation ok_sink 0 ?op sample_state"
  have "?r = (None, snd ?r)" "\<not> closed sample_state" "OpScope ?op \<noteq> []"
    "effective_instances 0 ?op = Some []" "drop_none [] \<noteq> [] \<or> [] = [] \<and> OpEmptyConfirmed ?op"
    by (simp_all add: sample_simps effective_instances_def)
  note eq = os_PushAllOperation_replaces_scope [OF this]
  show ?thesis
    unfolding Let_def eq by (simp add: batch_entry_def sample_state_def zero_op_def go_get_def)
qed

text \<open>An empty snapshot without the producer's confirmation is a strict no-op:
  neither the inner sink nor any part of the gate's state changes.\<close>

theorem os_PushAllOperation_unconfirmed_empty:
  assumes "OpScope op \<noteq> []" and "effective_instances now op = Some []" and "\<not> OpEmptyConfirmed op"
  shows "snd (os_PushAllOperation ops now op s) = s"
  using assms by (simp add: os_PushAllOperation_cases full_operation_def)

theorem os_PushAllOperation_unconfirmed_empty_witness:
  "snd (os_PushAllOperation ok_sink 3 (zero_op\<lparr>OpScope := ''k8s'', OpInstances := [Some sample_a],
     OpRevalidate := Some (\<lambda>_. Some [])\<rparr>) sample_state) = sample_state"
  by (rule os_PushAllOperation_unconfirmed_empty) (simp_all add: zero_op_def effective_instances_def)

text \<open>C35: The revalidated full push of the stale-snapshot path carries no scope, so
  its success marks every live identity the provider's snapshot omits as
  removed, the identities of the other providers included; an incremental push
  of such an identity at its unchanged revision is then dropped without a call
  and without an error.\<close>

theorem os_PushAllWithRevalidate_crosses_scopes:
  assumes "os_PushAllWithRevalidate ops now t items (Some f) s = (None, s')"
    and "\<not> closed s" and "f now = Some xs" and "xs = [] \<or> drop_none xs \<noteq> []"
    and "map_of (latest s) (IdentityKey i) = Some r" and "IdentityKey i \<notin> IdentityKey ` set (drop_none xs)"
    and "rev_of t' i = revision r"
  shows "map_of (latest s') (IdentityKey i) = Some (r\<lparr>tombstone := True\<rparr>)
    \<and> os_Push ops t' [Some i] s' = (None, s')"
proof -
  from assms(1-3) have run: "runLocked ops t xs True True True None s = (None, s')"
    by (simp add: os_PushAllWithRevalidate_def)
  obtain g j where g: "gate (latest s) t xs True True True = Forward g"
    and s': "s' = commit True True None g (s\<lparr>inner_state := j\<rparr>)"
    by (rule gate_nonempty_Forward [OF run assms(2,4)])
  have g': "gate (latest (s\<lparr>inner_state := j\<rparr>)) t xs True True True = Forward g" using g by simp
  have none: "batch_entry t (filtered g) (IdentityKey i) = None"
    using assms(6) gate_Forward(3) [OF g] by (simp add: batch_entry_None_iff)
  then have lat: "map_of (latest s') (IdentityKey i) = Some (r\<lparr>tombstone := True\<rparr>)"
    unfolding s' latest_commit [OF g'] using assms(5) by (simp add: out_of_scope_def)
  then have "gate (latest s') t' [Some i] False False False = Skip"
    using assms(7) by (simp add: gate_def gate_start_def Let_def gate_rejects_def staleRevision_def
        trustedEqualRevisionHeal_def)
  moreover have "\<not> closed s'" using assms(2) s' by simp
  ultimately show ?thesis using lat by (simp add: os_Push_def runLocked_def)
qed

theorem os_PushAllWithRevalidate_crosses_scopes_witness:
  "let s' = snd (os_PushAllWithRevalidate ok_sink 0 9 [] (Some (\<lambda>_. Some [Some sample_a])) sample_state)
   in map_of (latest s') ''consul/b'' = Some \<lparr>revision = 5, tombstone = True\<rparr>
     \<and> os_Push ok_sink 10 [Some (sample_b\<lparr>Status := InstanceStatusOffline\<rparr>)] s' = (None, s')"
proof -
  let ?r = "os_PushAllWithRevalidate ok_sink 0 9 [] (Some (\<lambda>_. Some [Some sample_a])) sample_state"
  let ?i = "sample_b\<lparr>Status := InstanceStatusOffline\<rparr>"
  have h: "?r = (None, snd ?r)" "\<not> closed sample_state" "(\<lambda>_. Some [Some sample_a]) (0 :: moment) = Some [Some sample_a]"
    "[Some sample_a] = [] \<or> drop_none [Some sample_a] \<noteq> []"
    "map_of (latest sample_state) (IdentityKey ?i) = Some \<lparr>revision = 5, tombstone = False\<rparr>"
    "IdentityKey ?i \<notin> IdentityKey ` set (drop_none [Some sample_a])" "rev_of 10 ?i = revision \<lparr>revision = 5, tombstone = False\<rparr>"
    by (simp_all add: sample_simps)
  have "IdentityKey ?i = ''consul/b''" by (simp add: sample_simps)
  with os_PushAllWithRevalidate_crosses_scopes [OF h] show ?thesis by (simp add: Let_def)
qed

text \<open>A push that reports an error leaves the ledger and the scopes as they
  were, whatever the operation: a failed call is never recorded as accepted and
  the same work can be retried.\<close>

theorem os_apply_error_keeps_ledger:
  assumes "os_apply ops c s = (Some e, s')" and "c \<noteq> OsClose"
  shows "latest s' = latest s \<and> identityScope s' = identityScope s \<and> closed s' = closed s"
proof -
  have run: "latest s' = latest s \<and> identityScope s' = identityScope s \<and> closed s' = closed s"
    if "runLocked ops t xs full tr rv op s0 = (Some e, s')" "latest s0 = latest s"
      "identityScope s0 = identityScope s" "closed s0 = closed s" for t xs full tr rv op s0
    using that(1) by (cases rule: runLocked_cases) (use that in simp_all)
  show ?thesis
    using assms by (cases c)
      (auto simp: os_Push_def os_PushAll_def os_PushAllWithRevalidate_def os_PushAllOperation_def
        full_operation_def Let_def split: if_splits option.splits intro: run dest: run)
qed

theorem os_apply_error_keeps_ledger_witness:
  "latest (snd (os_apply (trace_sink (\<lambda>_ _. Some (ErrNew ''boom''))) (OsPush 9 [Some sample_a]) sample_state))
     = latest sample_state"
proof -
  let ?r = "os_apply (trace_sink (\<lambda>_ _. Some (ErrNew ''boom''))) (OsPush 9 [Some sample_a]) sample_state"
  have "?r = (Some (ErrNew ''boom''), snd ?r)" by (simp add: sample_simps)
  from os_apply_error_keeps_ledger [OF this] show ?thesis by simp
qed

end
