(* ===== verification/Fanout.thy ===== *)
theory Fanout
  imports Ordered_Sink
begin

text \<open>
  The fan-out over named sinks, \<open>FanoutSink\<close> of src/pkg/worker/fanout.go.  Every
  registered sink is wrapped in the recording decorator and in the write gate.
  The pushes of one fan-out run concurrently, one goroutine per sink, and share
  no state, so that the result for each sink is computed from that sink alone;
  the results are collected by position.  The moment at which the goroutine of
  the sink at position \<open>i\<close> calls a revalidation callback is \<open>now i\<close>.
\<close>

section \<open>State\<close>

record 's NamedSink =
  ns_Name :: string
  ns_inner :: "'s sink"
  ns_state :: "'s recording orderedSink"

record 's FanoutSink =
  f_sinks :: "'s NamedSink list"
  f_reconcile :: "nat option"

definition totalSinkName :: string where "totalSinkName = ''__total__''"

abbreviation ns_ops :: "'s NamedSink \<Rightarrow> 's recording sink" where
  "ns_ops n \<equiv> recordingSink (ns_Name n) (ns_inner n)"

text \<open>The constructor: the loop over the sinks with the names seen so far.  A
  sink is given with its initial state; nil is \<^term>\<open>None\<close>.\<close>

fun fanout_loop :: "string list \<Rightarrow> (string \<times> ('s sink \<times> 's) option) list \<Rightarrow> 's NamedSink list result" where
  "fanout_loop seen_names [] = Inr []"
| "fanout_loop seen_names ((name, sk) # rest) =
    (if name = [] then Inl (ErrNew ''worker: fanout sink has an empty name'')
     else if name = totalSinkName then Inl (ErrNew ''worker: fanout sink name is reserved for the queue-depth total metrics label'')
     else case sk of
       None \<Rightarrow> Inl (ErrNew (''worker: fanout sink is nil: '' @ name))
     | Some (ops, st) \<Rightarrow>
        if name \<in> set seen_names then Inl (ErrNew (''worker: fanout sink is registered twice: '' @ name))
        else (case fanout_loop (name # seen_names) rest of
                Inl e \<Rightarrow> Inl e
              | Inr owned \<Rightarrow> Inr (\<lparr>ns_Name = name, ns_inner = ops, ns_state = new_orderedSink (st, [])\<rparr> # owned)))"

definition newFanoutSink :: "(string \<times> ('s sink \<times> 's) option) list \<Rightarrow> 's FanoutSink result" where
  "newFanoutSink sinks =
    (if sinks = [] then Inl (ErrNew ''worker: fanout requires at least one sink'')
     else case fanout_loop [] sinks of
       Inl e \<Rightarrow> Inl e
     | Inr owned \<Rightarrow> Inr \<lparr>f_sinks = owned, f_reconcile = None\<rparr>)"

definition Sinks :: "'s FanoutSink \<Rightarrow> string list" where
  "Sinks f = map ns_Name (f_sinks f)"

section \<open>Fan-out\<close>

fun collectFailures :: "string list \<Rightarrow> error list \<Rightarrow> (string \<times> go_err) list" where
  "collectFailures (n # ns) (Some e # es) = (n, e) # collectFailures ns es"
| "collectFailures (n # ns) (None # es) = collectFailures ns es"
| "collectFailures _ _ = []"

definition fanout_error :: "(string \<times> go_err) list \<Rightarrow> error" where
  "fanout_error failures = (if failures \<noteq> [] then Some (ErrFanout failures) else None)"

text \<open>One goroutine per sink: \<open>call i n\<close> is the result and the new gate state of
  the sink \<open>n\<close> at position \<open>i\<close>.\<close>

definition fan_out ::
  "(nat \<Rightarrow> 's NamedSink \<Rightarrow> error \<times> 's recording orderedSink) \<Rightarrow> 's FanoutSink \<Rightarrow> error \<times> 's FanoutSink" where
  "fan_out call f =
    (let results = map (\<lambda>(i, n). call i n) (enumerate 0 (f_sinks f))
     in (fanout_error (collectFailures (Sinks f) (map fst results)),
         f\<lparr>f_sinks := map (\<lambda>(n, r). n\<lparr>ns_state := snd r\<rparr>) (zip (f_sinks f) results)\<rparr>))"

definition f_Push :: "int64 \<Rightarrow> insts \<Rightarrow> 's FanoutSink \<Rightarrow> error \<times> 's FanoutSink" where
  "f_Push t xs = fan_out (\<lambda>i n. os_Push (ns_ops n) t xs (ns_state n))"

definition f_PushAll :: "int64 \<Rightarrow> insts \<Rightarrow> 's FanoutSink \<Rightarrow> error \<times> 's FanoutSink" where
  "f_PushAll t xs = fan_out (\<lambda>i n. os_PushAll (ns_ops n) t xs (ns_state n))"

definition f_PushAllWithRevalidate ::
  "(nat \<Rightarrow> moment) \<Rightarrow> int64 \<Rightarrow> insts \<Rightarrow> revalidate \<Rightarrow> 's FanoutSink \<Rightarrow> error \<times> 's FanoutSink" where
  "f_PushAllWithRevalidate now t xs rv =
     fan_out (\<lambda>i n. os_PushAllWithRevalidate (ns_ops n) (now i) t xs rv (ns_state n))"

text \<open>The first sink with the given name, updated in place.\<close>

fun with_named ::
  "string \<Rightarrow> go_err \<Rightarrow> ('s NamedSink \<Rightarrow> error \<times> 's recording orderedSink) \<Rightarrow> 's NamedSink list \<Rightarrow> error \<times> 's NamedSink list" where
  "with_named name unknown call [] = (Some unknown, [])"
| "with_named name unknown call (n # ns) =
    (if ns_Name n = name then (let (err, st) = call n in (err, n\<lparr>ns_state := st\<rparr> # ns))
     else (let (err, ns') = with_named name unknown call ns in (err, n # ns')))"

definition on_named ::
  "string \<Rightarrow> go_err \<Rightarrow> ('s NamedSink \<Rightarrow> error \<times> 's recording orderedSink) \<Rightarrow> 's FanoutSink \<Rightarrow> error \<times> 's FanoutSink" where
  "on_named name unknown call f =
    (let (err, ns) = with_named name unknown call (f_sinks f) in (err, f\<lparr>f_sinks := ns\<rparr>))"

definition f_PushTo :: "string \<Rightarrow> int64 \<Rightarrow> insts \<Rightarrow> 's FanoutSink \<Rightarrow> error \<times> 's FanoutSink" where
  "f_PushTo name t xs = on_named name (ErrNew (''worker: fanout PushTo unknown sink '' @ name))
     (\<lambda>n. os_Push (ns_ops n) t xs (ns_state n))"

definition f_PushAllTo :: "string \<Rightarrow> int64 \<Rightarrow> string \<Rightarrow> string \<Rightarrow> insts \<Rightarrow> 's FanoutSink \<Rightarrow> error \<times> 's FanoutSink" where
  "f_PushAllTo name t scope batchID xs = on_named name (ErrNew (''worker: fanout PushAllTo unknown sink '' @ name))
     (\<lambda>n. os_PushAll (ns_ops n) t xs (ns_state n))"

definition f_PushAllToWithRevalidate ::
  "moment \<Rightarrow> string \<Rightarrow> int64 \<Rightarrow> string \<Rightarrow> string \<Rightarrow> insts \<Rightarrow> revalidate \<Rightarrow> 's FanoutSink \<Rightarrow> error \<times> 's FanoutSink" where
  "f_PushAllToWithRevalidate now name t scope batchID xs rv =
     on_named name (ErrNew (''worker: fanout PushAllToWithRevalidate unknown sink '' @ name))
       (\<lambda>n. os_PushAllWithRevalidate (ns_ops n) now t xs rv (ns_state n))"

definition f_PushAllOperation ::
  "(nat \<Rightarrow> moment) \<Rightarrow> RetryOperation \<Rightarrow> 's FanoutSink \<Rightarrow> error \<times> 's FanoutSink" where
  "f_PushAllOperation now op f =
    (if OpSink op = [] then
       fan_out (\<lambda>i n. os_PushAllOperation (ns_ops n) (now i) (op\<lparr>OpSink := ns_Name n\<rparr>) (ns_state n)) f
     else on_named (OpSink op) (ErrNew (''worker: full operation sink is not registered: '' @ OpSink op))
       (\<lambda>n. os_PushAllOperation (ns_ops n) (now 0) op (ns_state n)) f)"

section \<open>The read view and shutdown\<close>

fun index_of :: "string \<Rightarrow> string list \<Rightarrow> nat option" where
  "index_of name [] = None"
| "index_of name (n # ns) = (if n = name then Some 0 else map_option Suc (index_of name ns))"

definition SetReconcileSource :: "string \<Rightarrow> 's FanoutSink \<Rightarrow> error \<times> 's FanoutSink" where
  "SetReconcileSource name f =
    (if name = [] then (None, f\<lparr>f_reconcile := None\<rparr>)
     else case index_of name (Sinks f) of
       Some i \<Rightarrow> (None, f\<lparr>f_reconcile := Some i\<rparr>)
     | None \<Rightarrow> (Some (ErrNew (''worker: fanout reconcile source is not a registered sink: '' @ name)), f))"

definition f_GetAll :: "int32 list \<Rightarrow> string \<Rightarrow> 's FanoutSink \<Rightarrow> insts result" where
  "f_GetAll statuses provider f =
    (let n = f_sinks f ! (case f_reconcile f of Some i \<Rightarrow> i | None \<Rightarrow> 0)
     in os_GetAll (ns_ops n) statuses provider (ns_state n))"

definition f_Close :: "'s FanoutSink \<Rightarrow> error \<times> 's FanoutSink" where
  "f_Close f =
    (let results = map (\<lambda>n. os_Close (ns_ops n) (ns_state n)) (f_sinks f);
         failures = collectFailures (Sinks f) (map fst results)
     in (if failures \<noteq> [] then Some (ErrJoin (map (\<lambda>(n, e). Some (ErrWrap n e)) failures)) else None,
         f\<lparr>f_sinks := map (\<lambda>(n, r). n\<lparr>ns_state := snd r\<rparr>) (zip (f_sinks f) results)\<rparr>))"

section \<open>Failed sinks\<close>

definition FailedSinks :: "(string \<times> go_err) list \<Rightarrow> string list" where
  "FailedSinks e = map fst e"

definition failedSinkNames :: "error \<Rightarrow> string list \<Rightarrow> string list" where
  "failedSinkNames err known = (case err of
      None \<Rightarrow> []
    | Some e \<Rightarrow>
       if known = [] then []
       else case errors_As_fanout e of
         Some (f # fs) \<Rightarrow> map fst (filter (\<lambda>(s, x). \<not> errors_Is x errStaleFullPush) (f # fs))
       | _ \<Rightarrow> known)"

section \<open>Well-formedness\<close>

text \<open>What the constructor guarantees of the registered names and every
  operation keeps: at least one sink, names distinct, non-empty and different
  from the label of the total, and a reconcile designation that is in range.\<close>

definition fanout_wf :: "'s FanoutSink \<Rightarrow> bool" where
  "fanout_wf f = (f_sinks f \<noteq> [] \<and> distinct (Sinks f) \<and> [] \<notin> set (Sinks f)
     \<and> totalSinkName \<notin> set (Sinks f)
     \<and> (case f_reconcile f of None \<Rightarrow> True | Some i \<Rightarrow> i < length (f_sinks f)))"

lemma fanout_loop_names:
  assumes "fanout_loop seen_names sinks = Inr owned"
  shows "map ns_Name owned = map fst sinks \<and> distinct (map fst sinks) \<and> set (map fst sinks) \<inter> set seen_names = {}
    \<and> [] \<notin> set (map fst sinks) \<and> totalSinkName \<notin> set (map fst sinks)"
  using assms
proof (induction seen_names sinks arbitrary: owned rule: fanout_loop.induct)
  case (2 seen_names name sk rest)
  then show ?case by (force split: if_splits option.splits sum.splits prod.splits)
qed simp

lemma fanout_loop_ok:
  assumes "distinct (map fst sinks)" "set (map fst sinks) \<inter> set seen_names = {}" "[] \<notin> set (map fst sinks)"
    "totalSinkName \<notin> set (map fst sinks)" "None \<notin> snd ` set sinks"
  shows "\<exists>owned. fanout_loop seen_names sinks = Inr owned"
  using assms
proof (induction seen_names sinks rule: fanout_loop.induct)
  case (2 seen_names name sk rest)
  then obtain ops st where sk: "sk = Some (ops, st)" by (cases sk) auto
  with 2 have "\<exists>owned. fanout_loop (name # seen_names) rest = Inr owned"
    by (intro "2.IH") (auto simp: image_iff)
  with sk "2.prems" show ?case by auto
qed simp

lemma fanout_loop_nil:
  "None \<in> snd ` set sinks \<Longrightarrow> \<exists>e. fanout_loop seen_names sinks = Inl e"
  by (induction seen_names sinks rule: fanout_loop.induct) (force split: option.splits sum.splits)+

lemma length_with_named [simp]: "length (snd (with_named name u call ns)) = length ns"
  by (induction ns) (auto split: prod.splits)

lemma names_with_named [simp]: "map ns_Name (snd (with_named name u call ns)) = map ns_Name ns"
  by (induction ns) (auto split: prod.splits)

lemma Sinks_on_named [simp]: "Sinks (snd (on_named name u call f)) = Sinks f"
  by (simp add: on_named_def Sinks_def Let_def split_beta)

lemma Sinks_fan_out [simp]: "Sinks (snd (fan_out call f)) = Sinks f"
proof -
  have "map ns_Name (map (\<lambda>(n, r). n\<lparr>ns_state := snd r\<rparr>) (zip ns rs)) = map ns_Name ns"
    if "length rs = length ns" for ns :: "'a NamedSink list" and rs :: "(error \<times> 'a recording orderedSink) list"
    using that by (induction ns rs rule: list_induct2') auto
  then show ?thesis by (simp add: fan_out_def Sinks_def Let_def)
qed

lemma fanout_wf_cong:
  "Sinks f' = Sinks f \<Longrightarrow> f_reconcile f' = f_reconcile f \<Longrightarrow> fanout_wf f \<Longrightarrow> fanout_wf f'"
  unfolding fanout_wf_def Sinks_def by (metis length_map map_is_Nil_conv)

lemma fanout_wf_fan_out [inv_intros]: "fanout_wf f \<Longrightarrow> fanout_wf (snd (fan_out call f))"
  by (rule fanout_wf_cong [of _ f]) (simp_all, simp add: fan_out_def Let_def)

lemma fanout_wf_on_named [inv_intros]: "fanout_wf f \<Longrightarrow> fanout_wf (snd (on_named name u call f))"
  by (rule fanout_wf_cong [of _ f]) (simp_all, simp add: on_named_def Let_def split_beta)

lemma index_of_lt: "index_of name ns = Some i \<Longrightarrow> i < length ns \<and> ns ! i = name"
  by (induction name ns arbitrary: i rule: index_of.induct) (auto split: if_splits)

lemma index_of_None_iff: "index_of name ns = None \<longleftrightarrow> name \<notin> set ns"
  by (induction name ns rule: index_of.induct) auto

lemma fanout_wf_SetReconcileSource [inv_intros]:
  "fanout_wf f \<Longrightarrow> fanout_wf (snd (SetReconcileSource name f))"
  by (auto simp: SetReconcileSource_def fanout_wf_def Sinks_def dest: index_of_lt split: option.splits)

section \<open>Isolation\<close>

lemma collectFailures_eq:
  "length names = length errs \<Longrightarrow>
   collectFailures names errs = map (\<lambda>(n, e). (n, the e)) (filter (\<lambda>(n, e). e \<noteq> None) (zip names errs))"
  by (induction names errs rule: collectFailures.induct) auto

lemma enumerate_map_fst:
  "map (\<lambda>(i, n). call n) (enumerate k ns) = map call ns"
  by (induction ns arbitrary: k) simp_all

lemma nth_fan_out:
  assumes "i < length (f_sinks f)"
  shows "f_sinks (snd (fan_out call f)) ! i = (f_sinks f ! i)\<lparr>ns_state := snd (call i (f_sinks f ! i))\<rparr>"
  using assms by (simp add: fan_out_def Let_def nth_enumerate_eq)

lemma failures_fan_out:
  "collectFailures (map ns_Name ns) (map (\<lambda>n. fst (call n)) ns)
    = map (\<lambda>n. (ns_Name n, the (fst (call n)))) (filter (\<lambda>n. fst (call n) \<noteq> None) ns)"
proof (induction ns)
  case (Cons n ns)
  then show ?case by (cases "fst (call n)") simp_all
qed simp

lemma fst_fan_out:
  "fst (fan_out (\<lambda>i. call) f) = fanout_error
     (map (\<lambda>n. (ns_Name n, the (fst (call n)))) (filter (\<lambda>n. fst (call n) \<noteq> None) (f_sinks f)))"
  using failures_fan_out [of "f_sinks f" call]
  by (simp add: fan_out_def Let_def Sinks_def enumerate_map_fst comp_def)

lemma failedSinkNames_fanout:
  "known \<noteq> [] \<Longrightarrow> failedSinkNames (fanout_error fs) known
    = map fst (filter (\<lambda>(s, x). \<not> errors_Is x errStaleFullPush) fs)"
  by (cases fs) (auto simp: failedSinkNames_def fanout_error_def)

text \<open>The constructor accepts a list of sinks exactly when it is non-empty, no
  sink is nil, and the names are distinct, non-empty and none is the label
  reserved for the total; the fan-out then has these names in declaration
  order and is well-formed.\<close>

theorem newFanoutSink_accepts_iff:
  "(\<exists>f. newFanoutSink sinks = Inr f)
     = (sinks \<noteq> [] \<and> None \<notin> snd ` set sinks \<and> distinct (map fst sinks)
        \<and> [] \<notin> fst ` set sinks \<and> totalSinkName \<notin> fst ` set sinks)
   \<and> (case newFanoutSink sinks of Inl e \<Rightarrow> True | Inr f \<Rightarrow> Sinks f = map fst sinks \<and> fanout_wf f)"
proof (cases "fanout_loop [] sinks")
  case (Inl e)
  then show ?thesis using fanout_loop_ok [of sinks "[]"] by (auto simp: newFanoutSink_def)
next
  case (Inr owned)
  then have n: "map ns_Name owned = map fst sinks" "distinct (map fst sinks)" "[] \<notin> set (map fst sinks)"
    "totalSinkName \<notin> set (map fst sinks)" using fanout_loop_names by blast+
  have "None \<notin> snd ` set sinks" using fanout_loop_nil [of sinks "[]"] Inr by fastforce
  moreover have "sinks = [] \<longleftrightarrow> owned = []" using n(1) by (metis map_is_Nil_conv)
  ultimately show ?thesis using Inr n by (auto simp: newFanoutSink_def Sinks_def fanout_wf_def)
qed

lemma f_Push_isolates:
  assumes "f_Push t xs f = (err, f')" and "fanout_wf f"
  shows "map ns_state (f_sinks f') = map (\<lambda>n. snd (os_Push (ns_ops n) t xs (ns_state n))) (f_sinks f)
    \<and> (err = None \<longleftrightarrow> (\<forall>n \<in> set (f_sinks f). fst (os_Push (ns_ops n) t xs (ns_state n)) = None))
    \<and> failedSinkNames err (Sinks f) =
       map ns_Name (filter (\<lambda>n. case fst (os_Push (ns_ops n) t xs (ns_state n)) of
          None \<Rightarrow> False | Some e \<Rightarrow> \<not> errors_Is e errStaleFullPush) (f_sinks f))"
proof -
  let ?call = "\<lambda>n. os_Push (ns_ops n) t xs (ns_state n)"
  let ?fs = "map (\<lambda>n. (ns_Name n, the (fst (?call n)))) (filter (\<lambda>n. fst (?call n) \<noteq> None) (f_sinks f))"
  have err: "err = fanout_error ?fs"
    using assms(1) fst_fan_out [of ?call f] unfolding f_Push_def by simp
  have "map ns_state (f_sinks f') = map (\<lambda>n. snd (?call n)) (f_sinks f)"
  proof (rule nth_equalityI)
    show "length (map ns_state (f_sinks f')) = length (map (\<lambda>n. snd (?call n)) (f_sinks f))"
      using assms(1) by (auto simp: f_Push_def fan_out_def Let_def)
  next
    fix i assume i: "i < length (map ns_state (f_sinks f'))"
    then have "i < length (f_sinks f)" using assms(1) by (auto simp: f_Push_def fan_out_def Let_def)
    with i nth_fan_out [OF this, of "\<lambda>i. ?call"] assms(1)
    show "map ns_state (f_sinks f') ! i = map (\<lambda>n. snd (?call n)) (f_sinks f) ! i"
      unfolding f_Push_def by simp
  qed
  moreover have "err = None \<longleftrightarrow> (\<forall>n \<in> set (f_sinks f). fst (?call n) = None)"
    unfolding err by (auto simp: fanout_error_def filter_empty_conv)
  moreover have pred: "(\<lambda>n. case fst (?call n) of None \<Rightarrow> False | Some e \<Rightarrow> \<not> errors_Is e errStaleFullPush)
      = (\<lambda>n. fst (?call n) \<noteq> None \<and> \<not> errors_Is (the (fst (?call n))) errStaleFullPush)"
    by (auto simp: fun_eq_iff split: option.splits)
  have "Sinks f \<noteq> []" using assms(2) by (simp add: fanout_wf_def Sinks_def)
  from failedSinkNames_fanout [OF this, of ?fs]
  have "failedSinkNames err (Sinks f) =
      map ns_Name (filter (\<lambda>n. case fst (?call n) of None \<Rightarrow> False | Some e \<Rightarrow> \<not> errors_Is e errStaleFullPush) (f_sinks f))"
    unfolding err pred by (simp add: filter_map comp_def)
  ultimately show ?thesis by blast
qed

text \<open>C18: Sinks are isolated in a fan-out push.  Every sink is attempted and its
  state afterwards is what its own push alone gives, whatever the others
  answer; the push reports success iff every sink did; and the sinks queued for
  a retry are exactly those whose push failed with something else than a stale
  snapshot, in declaration order.\<close>

theorem f_Push_isolates_sinks:
  assumes "f_Push t xs f = (err, f')" and "fanout_wf f"
  shows "map ns_state (f_sinks f') = map (\<lambda>n. snd (os_Push (ns_ops n) t xs (ns_state n))) (f_sinks f)
    \<and> (err = None \<longleftrightarrow> (\<forall>n \<in> set (f_sinks f). fst (os_Push (ns_ops n) t xs (ns_state n)) = None))
    \<and> failedSinkNames err (Sinks f) =
       map ns_Name (filter (\<lambda>n. case fst (os_Push (ns_ops n) t xs (ns_state n)) of
          None \<Rightarrow> False | Some e \<Rightarrow> \<not> errors_Is e errStaleFullPush) (f_sinks f))"
  by (rule f_Push_isolates [OF assms])

text \<open>Two sinks, one that accepts and one that refuses every call.\<close>

definition sample_fanout :: "sink_call list FanoutSink" where
  "sample_fanout = \<lparr>f_sinks = [
      \<lparr>ns_Name = ''atlas'', ns_inner = ok_sink, ns_state = new_orderedSink ([], [])\<rparr>,
      \<lparr>ns_Name = ''nacos'', ns_inner = trace_sink (\<lambda>_ _. Some (ErrNew ''timeout'')), ns_state = new_orderedSink ([], [])\<rparr>],
    f_reconcile = None\<rparr>"

theorem f_Push_isolates_sinks_witness:
  "fanout_wf sample_fanout \<and>
   failedSinkNames (fst (f_Push 9 [Some sample_a] sample_fanout)) [''atlas'', ''nacos''] = [''nacos'']"
proof -
  have wf: "fanout_wf sample_fanout" by (simp add: fanout_wf_def sample_fanout_def Sinks_def totalSinkName_def)
  have sinks: "Sinks sample_fanout = [''atlas'', ''nacos'']" by (simp add: sample_fanout_def Sinks_def)
  have "f_Push 9 [Some sample_a] sample_fanout
      = (fst (f_Push 9 [Some sample_a] sample_fanout), snd (f_Push 9 [Some sample_a] sample_fanout))" by simp
  from f_Push_isolates_sinks [OF this wf] wf show ?thesis unfolding sinks
    by (simp add: sample_fanout_def sample_simps recordingSink_def new_orderedSink_def)
qed

text \<open>The retry seam addresses one sink: \<open>PushTo\<close> of a registered name changes
  the gate of that sink as its own push does and leaves every other sink as it
  was; an unknown name is an error that changes nothing.\<close>

theorem f_PushTo_touches_one_sink:
  assumes "fanout_wf f"
  shows "if name \<in> set (Sinks f)
    then \<exists>i < length (f_sinks f). Sinks f ! i = name
      \<and> fst (f_PushTo name t xs f) = fst (os_Push (ns_ops (f_sinks f ! i)) t xs (ns_state (f_sinks f ! i)))
      \<and> f_sinks (snd (f_PushTo name t xs f)) = (f_sinks f)[i := (f_sinks f ! i)\<lparr>ns_state :=
            snd (os_Push (ns_ops (f_sinks f ! i)) t xs (ns_state (f_sinks f ! i)))\<rparr>]
    else fst (f_PushTo name t xs f) \<noteq> None \<and> f_sinks (snd (f_PushTo name t xs f)) = f_sinks f"
proof -
  have known: "name \<in> set (map ns_Name ns) \<Longrightarrow>
      \<exists>i < length ns. ns_Name (ns ! i) = name \<and> fst (with_named name u call ns) = fst (call (ns ! i))
        \<and> snd (with_named name u call ns) = ns[i := (ns ! i)\<lparr>ns_state := snd (call (ns ! i))\<rparr>]"
    for ns :: "'a NamedSink list" and call u
  proof (induction ns)
    case (Cons n ns)
    show ?case
    proof (cases "ns_Name n = name")
      case True
      then show ?thesis by (intro exI [of _ 0]) (simp add: split_beta)
    next
      case False
      with Cons obtain i where "i < length ns \<and> ns_Name (ns ! i) = name
        \<and> fst (with_named name u call ns) = fst (call (ns ! i))
        \<and> snd (with_named name u call ns) = ns[i := (ns ! i)\<lparr>ns_state := snd (call (ns ! i))\<rparr>]" by auto
      with False show ?thesis by (intro exI [of _ "Suc i"]) (simp add: split_beta)
    qed
  qed simp
  have unknown: "name \<notin> set (map ns_Name ns) \<Longrightarrow> with_named name u call ns = (Some u, ns)"
    for ns :: "'a NamedSink list" and call u
    by (induction ns) auto
  show ?thesis
    using known [of "f_sinks f"] unknown [of "f_sinks f"]
    by (force simp: f_PushTo_def on_named_def Sinks_def split_beta Let_def)
qed

theorem f_PushTo_touches_one_sink_witness:
  "fst (f_PushTo ''other'' 9 [Some sample_a] sample_fanout) \<noteq> None
   \<and> f_sinks (snd (f_PushTo ''other'' 9 [Some sample_a] sample_fanout)) = f_sinks sample_fanout"
proof -
  have "fanout_wf sample_fanout" by (simp add: fanout_wf_def sample_fanout_def Sinks_def totalSinkName_def)
  from f_PushTo_touches_one_sink [OF this, of "''other''" 9 "[Some sample_a]"] show ?thesis
    by (simp add: sample_fanout_def Sinks_def split: if_splits)
qed

text \<open>\<open>GetAll\<close> consults exactly the designated sink: after a successful
  designation by a non-empty name it is the view of the sink of that name, and
  after a reset it is the view of the first sink; a name that is not registered
  is refused and changes nothing.\<close>

theorem SetReconcileSource_designates:
  assumes "fanout_wf f"
  shows "(name \<in> set (Sinks f) \<longrightarrow> (\<exists>i < length (f_sinks f). ns_Name (f_sinks f ! i) = name
       \<and> fst (SetReconcileSource name f) = None
       \<and> f_GetAll sts p (snd (SetReconcileSource name f))
           = s_GetAll (ns_inner (f_sinks f ! i)) sts p (fst (inner_state (ns_state (f_sinks f ! i))))))
   \<and> f_GetAll sts p (snd (SetReconcileSource [] f))
       = s_GetAll (ns_inner (hd (f_sinks f))) sts p (fst (inner_state (ns_state (hd (f_sinks f)))))
   \<and> (name \<notin> set (Sinks f) \<and> name \<noteq> [] \<longrightarrow>
       fst (SetReconcileSource name f) \<noteq> None \<and> snd (SetReconcileSource name f) = f)"
proof -
  have ne: "[] \<notin> set (Sinks f)" "f_sinks f \<noteq> []" using assms by (auto simp: fanout_wf_def)
  have "\<exists>i < length (f_sinks f). ns_Name (f_sinks f ! i) = name
       \<and> fst (SetReconcileSource name f) = None
       \<and> f_GetAll sts p (snd (SetReconcileSource name f))
           = s_GetAll (ns_inner (f_sinks f ! i)) sts p (fst (inner_state (ns_state (f_sinks f ! i))))"
    if n: "name \<in> set (Sinks f)"
  proof -
    obtain i where i: "index_of name (Sinks f) = Some i" using n index_of_None_iff by fastforce
    from index_of_lt [OF this] have "i < length (f_sinks f)" "ns_Name (f_sinks f ! i) = name"
      by (auto simp: Sinks_def)
    moreover have "name \<noteq> []" using n ne by auto
    ultimately show ?thesis using i
      by (intro exI [of _ i]) (simp add: SetReconcileSource_def f_GetAll_def Let_def os_GetAll_def recordingSink_def split_beta)
  qed
  moreover have "f_GetAll sts p (snd (SetReconcileSource [] f))
       = s_GetAll (ns_inner (hd (f_sinks f))) sts p (fst (inner_state (ns_state (hd (f_sinks f)))))"
    using ne by (simp add: SetReconcileSource_def f_GetAll_def Let_def os_GetAll_def recordingSink_def split_beta hd_conv_nth)
  moreover have "fst (SetReconcileSource name f) \<noteq> None \<and> snd (SetReconcileSource name f) = f"
    if "name \<notin> set (Sinks f)" "name \<noteq> []"
    using that index_of_None_iff [of name "Sinks f"] by (simp add: SetReconcileSource_def)
  ultimately show ?thesis by blast
qed

theorem SetReconcileSource_designates_witness:
  "fst (SetReconcileSource ''nacos'' sample_fanout) = None"
proof -
  have "fanout_wf sample_fanout" by (simp add: fanout_wf_def sample_fanout_def Sinks_def totalSinkName_def)
  moreover have "''nacos'' \<in> set (Sinks sample_fanout)" by (simp add: sample_fanout_def Sinks_def)
  ultimately show ?thesis using SetReconcileSource_designates [of sample_fanout "''nacos''"] by blast
qed

end
