(* ===== verification/Retry_Queue.thy ===== *)
theory Retry_Queue
  imports Fanout
begin

text \<open>
  The per-sink retry queue, \<open>UnsyncedService\<close> of
  src/pkg/worker/unsynced_service.go.  Failed pushes wait under a key of
  identity and sink; a cycle takes a snapshot of the store, pushes every entry
  to its own sink without holding the lock, and removes an entry only if it is
  still the one that was pushed.

  The code compares queued instances by pointer, so an instance is queued with
  its address.  \<open>json.Marshal\<close> of an instance, which only names a batch, is the
  parameter \<open>marshal\<close>.  A nil dereference is the value \<^term>\<open>None\<close> of \<open>Add\<close>.
\<close>

section \<open>Data\<close>

type_synonym ptr_inst = "nat \<times> inst"
type_synonym ptr_insts = "ptr_inst option list"

definition RetryPush :: string where "RetryPush = ''Push''"
definition RetryPushAll :: string where "RetryPushAll = ''PushAll''"

record retryKey =
  rk_InstanceID :: string
  rk_Sink :: string
  rk_Operation :: string
  rk_Scope :: string
  rk_BatchID :: string

record pendingPush =
  pp_Trigger :: int64
  pp_Instance :: "ptr_inst option"
  pp_Full :: bool
  pp_Batch :: insts
  pp_Operation :: string
  pp_Scope :: string
  pp_BatchID :: string
  pp_FullRevision :: "64 word"
  pp_Revalidate :: revalidate
  pp_EmptyConfirmed :: bool

type_synonym retry_store = "(retryKey \<times> pendingPush) list"

definition AtlasSinkName :: string where "AtlasSinkName = ''atlas''"
definition plainSinkName :: string where "plainSinkName = AtlasSinkName"

text \<open>The pusher behind the service: a plain sink or a fan-out.\<close>

datatype 's pusher = PlainPusher "'s sink" 's | FanoutPusher "'s FanoutSink"

record 's UnsyncedService =
  u_pusher :: "'s pusher"
  u_store :: retry_store

definition sinkNames :: "'s pusher \<Rightarrow> string list" where
  "sinkNames p = (case p of FanoutPusher f \<Rightarrow> Sinks f | PlainPusher _ _ \<Rightarrow> [plainSinkName])"

section \<open>Batch identity\<close>

definition maxPositive :: "int64 \<Rightarrow> int64" where
  "maxPositive value = (if value < 0 then 0 else value)"

definition scope_of :: "inst \<Rightarrow> string" where
  "scope_of item =
    (let scope = Provider item;
         scope = (if scope = [] then SourceCluster item else scope)
     in if scope = [] then ''unknown'' else scope)"

definition fullScope :: "insts \<Rightarrow> string" where
  "fullScope instances =
    (let scopes = sort (remdups (map scope_of (drop_none instances)))
     in if scopes = [] then ''unknown'' else join ''+'' scopes)"

definition fullBatchID :: "(inst \<Rightarrow> string option) \<Rightarrow> string \<Rightarrow> insts \<Rightarrow> string" where
  "fullBatchID marshal scope instances =
    (let ids = map (\<lambda>item.
           let payload = (case marshal item of
                 Some p \<Rightarrow> p
               | None \<Rightarrow> IdentityKey item @ ''/'' @ int_digits (Reversion item))
           in IdentityKey item @ '':'' @ payload) (drop_none instances);
         h = sum256 (scope @ '':'' @ join '','' (sort ids))
     in hex_encode (take 8 h))"

section \<open>Adding\<close>

definition add_key :: "inst \<Rightarrow> string \<Rightarrow> retryKey" where
  "add_key item sink = \<lparr>rk_InstanceID = IdentityKey item, rk_Sink = sink, rk_Operation = RetryPush,
     rk_Scope = [], rk_BatchID = []\<rparr>"

definition new_pending :: "int64 \<Rightarrow> ptr_inst \<Rightarrow> pendingPush" where
  "new_pending t item = \<lparr>pp_Trigger = t, pp_Instance = Some item, pp_Full = False, pp_Batch = [],
     pp_Operation = [], pp_Scope = [], pp_BatchID = [], pp_FullRevision = 0, pp_Revalidate = None,
     pp_EmptyConfirmed = False\<rparr>"

text \<open>One iteration of the inner loop; a queued entry without an instance would
  be dereferenced.\<close>

definition add_one :: "int64 \<Rightarrow> ptr_inst \<Rightarrow> string \<Rightarrow> retry_store \<Rightarrow> retry_store option" where
  "add_one t item sink st =
    (let key = add_key (snd item) sink in
     case map_of st key of
       None \<Rightarrow> Some (aupd key (new_pending t item) st)
     | Some old \<Rightarrow>
        (case pp_Instance old of
           None \<Rightarrow> None
         | Some oi \<Rightarrow>
            if Reversion (snd item) > Reversion (snd oi)
            then Some (aupd key (old\<lparr>pp_Instance := Some item\<rparr>) st)
            else Some st))"

fun add_sinks :: "int64 \<Rightarrow> ptr_inst \<Rightarrow> string list \<Rightarrow> retry_store \<Rightarrow> retry_store option" where
  "add_sinks t item [] st = Some st"
| "add_sinks t item (sink # sinks) st =
    (case add_one t item sink st of None \<Rightarrow> None | Some st' \<Rightarrow> add_sinks t item sinks st')"

fun add_items :: "int64 \<Rightarrow> ptr_insts \<Rightarrow> string list \<Rightarrow> retry_store \<Rightarrow> retry_store option" where
  "add_items t [] sinks st = Some st"
| "add_items t (None # items) sinks st = add_items t items sinks st"
| "add_items t (Some item # items) sinks st =
    (case add_sinks t item sinks st of None \<Rightarrow> None | Some st' \<Rightarrow> add_items t items sinks st')"

definition Add :: "int64 \<Rightarrow> ptr_insts \<Rightarrow> string list \<Rightarrow> 's pusher \<Rightarrow> retry_store \<Rightarrow> retry_store option" where
  "Add t items sinks p st =
    (if items = [] then Some st
     else let targets = (if sinks = [] then sinkNames p else sinks) in
       if targets = [] then Some st else add_items t items targets st)"

definition full_key :: "string \<Rightarrow> string \<Rightarrow> retryKey" where
  "full_key sink scope = \<lparr>rk_InstanceID = ''__full__'', rk_Sink = sink, rk_Operation = RetryPushAll,
     rk_Scope = scope, rk_BatchID = []\<rparr>"

definition full_pending ::
  "int64 \<Rightarrow> insts \<Rightarrow> string \<Rightarrow> string \<Rightarrow> 64 word \<Rightarrow> revalidate \<Rightarrow> bool \<Rightarrow> pendingPush" where
  "full_pending t items scope batchID seqn rv confirmed = \<lparr>pp_Trigger = t, pp_Instance = None,
     pp_Full = True, pp_Batch = items, pp_Operation = RetryPushAll, pp_Scope = scope,
     pp_BatchID = batchID, pp_FullRevision = seqn, pp_Revalidate = rv, pp_EmptyConfirmed = confirmed\<rparr>"

definition add_full_one :: "pendingPush \<Rightarrow> string \<Rightarrow> retry_store \<Rightarrow> retry_store" where
  "add_full_one p sink st =
    (let key = full_key sink (pp_Scope p) in
     case map_of st key of
       Some old \<Rightarrow> if pp_FullRevision old > pp_FullRevision p then st else aupd key p st
     | None \<Rightarrow> aupd key p st)"

definition AddFullWithMeta ::
  "int64 \<Rightarrow> insts \<Rightarrow> string list \<Rightarrow> string \<Rightarrow> string \<Rightarrow> 64 word \<Rightarrow> revalidate \<Rightarrow> bool \<Rightarrow> 's pusher \<Rightarrow> retry_store \<Rightarrow> retry_store" where
  "AddFullWithMeta t items sinks scope batchID seqn rv confirmed p st =
    (if scope = [] \<or> batchID = [] then st
     else
       let targets = (if sinks = [] then sinkNames p else sinks);
           seqn = (if seqn = 0 \<and> t > 0 then word_of_int t else seqn)
       in fold (add_full_one (full_pending t items scope batchID seqn rv confirmed)) targets st)"

definition AddFull ::
  "(inst \<Rightarrow> string option) \<Rightarrow> int64 \<Rightarrow> insts \<Rightarrow> string list \<Rightarrow> 's pusher \<Rightarrow> retry_store \<Rightarrow> retry_store" where
  "AddFull marshal t items sinks p st =
    (if drop_none items = [] then st
     else let scope = fullScope items in
       AddFullWithMeta t items sinks scope (fullBatchID marshal scope items)
         (word_of_int (maxPositive t)) None False p st)"

definition AddOperation :: "RetryOperation \<Rightarrow> ptr_insts \<Rightarrow> 's pusher \<Rightarrow> retry_store \<Rightarrow> retry_store option" where
  "AddOperation op ptrs p st =
    (if OpSink op = [] then Some st
     else if OpOperate op = OperateTypeSyncAll then
       Some (AddFullWithMeta (OpTrigger op) (OpInstances op) [OpSink op] (OpScope op) (OpBatchID op)
         (OpSequence op) (OpRevalidate op) (OpEmptyConfirmed op) p st)
     else Add (OpTrigger op) ptrs [OpSink op] p st)"

definition drain_op :: "retryKey \<times> pendingPush \<Rightarrow> RetryOperation" where
  "drain_op = (\<lambda>(key, pending).
    let op = \<lparr>OpSink = rk_Sink key, OpOperate = OperateTypeSync, OpProvider = pp_Scope pending,
          OpScope = pp_Scope pending, OpBatchID = pp_BatchID pending, OpIdentity = [],
          OpRevision = sint (pp_FullRevision pending), OpSequence = pp_FullRevision pending,
          OpTrigger = pp_Trigger pending, OpInstances = [], OpRevalidate = pp_Revalidate pending,
          OpEmptyConfirmed = pp_EmptyConfirmed pending\<rparr>
    in if pp_Full pending then op\<lparr>OpOperate := OperateTypeSyncAll, OpInstances := pp_Batch pending\<rparr>
       else case pp_Instance pending of
         Some (a, i) \<Rightarrow> op\<lparr>OpIdentity := IdentityKey i, OpRevision := Reversion i, OpInstances := [Some i]\<rparr>
       | None \<Rightarrow> op)"

text \<open>The sort key of \<open>sort.Slice\<close>: the sink, then the concatenation of scope,
  batch and identity.\<close>

definition drain_key :: "RetryOperation \<Rightarrow> string list" where
  "drain_key op = [OpSink op, OpScope op @ OpBatchID op @ OpIdentity op]"

definition DrainOperations :: "retry_store \<Rightarrow> RetryOperation list" where
  "DrainOperations st = sort_key drain_key (map drain_op st)"

section \<open>A retry cycle\<close>

definition samePending ::
  "(inst \<Rightarrow> string option) \<Rightarrow> pendingPush \<Rightarrow> pendingPush \<Rightarrow> bool" where
  "samePending marshal current attempted =
    (if pp_Full current \<noteq> pp_Full attempted \<or> pp_Operation current \<noteq> pp_Operation attempted then False
     else if pp_Full current then
       pp_Scope current = pp_Scope attempted \<and> pp_BatchID current = pp_BatchID attempted
       \<and> pp_FullRevision current = pp_FullRevision attempted
       \<and> fullBatchID marshal (pp_Scope current) (pp_Batch current)
         = fullBatchID marshal (pp_Scope attempted) (pp_Batch attempted)
     else map_option fst (pp_Instance current) = map_option fst (pp_Instance attempted))"

text \<open>Deletion by comparison, under the lock.\<close>

definition delete_same ::
  "(inst \<Rightarrow> string option) \<Rightarrow> retryKey \<Rightarrow> pendingPush \<Rightarrow> retry_store \<Rightarrow> retry_store" where
  "delete_same marshal key attempted st = (case map_of st key of
      Some current \<Rightarrow> if samePending marshal current attempted then adel key st else st
    | None \<Rightarrow> st)"

definition dropGhostSinkKeys ::
  "(inst \<Rightarrow> string option) \<Rightarrow> string list \<Rightarrow> retry_store \<Rightarrow> retry_store \<Rightarrow> retry_store" where
  "dropGhostSinkKeys marshal known batch st =
     fold (\<lambda>(key, attempted). delete_same marshal key attempted)
       (filter (\<lambda>(key, _). rk_Sink key \<notin> set known) batch) st"

definition retryKeyed ::
  "(inst \<Rightarrow> string option) \<Rightarrow> retryKey \<Rightarrow> pendingPush \<Rightarrow> error \<Rightarrow> retry_store \<Rightarrow> retry_store" where
  "retryKeyed marshal key pending err st = (case err of
      None \<Rightarrow> delete_same marshal key pending st
    | Some e \<Rightarrow>
       if pp_Full pending \<and> errors_Is e errStaleFullPush then delete_same marshal key pending st
       else if IsPermanentError e then delete_same marshal key pending st
       else st)"

definition keysForSink :: "retry_store \<Rightarrow> string \<Rightarrow> retryKey list" where
  "keysForSink batch sink = filter (\<lambda>k. rk_Sink k = sink) (map fst batch)"

definition lensOf :: "retry_store \<Rightarrow> string \<Rightarrow> nat" where
  "lensOf st sink = length (filter (\<lambda>(k, _). rk_Sink k = sink) st)"

definition recordDepths :: "string list \<Rightarrow> retry_store \<Rightarrow> (string \<times> nat) list" where
  "recordDepths names st = map (\<lambda>s. (s, lensOf st s)) names @ [(totalSinkName, length st)]"

definition retry_operation :: "string \<Rightarrow> pendingPush \<Rightarrow> RetryOperation" where
  "retry_operation sink pending = zero_op\<lparr>OpSink := sink, OpOperate := OperateTypeSyncAll,
     OpProvider := pp_Scope pending, OpScope := pp_Scope pending, OpBatchID := pp_BatchID pending,
     OpSequence := pp_FullRevision pending, OpTrigger := pp_Trigger pending,
     OpInstances := pp_Batch pending, OpRevalidate := pp_Revalidate pending,
     OpEmptyConfirmed := pp_EmptyConfirmed pending\<rparr>"

text \<open>The attempt of one entry.  A fan-out implements \<open>FullOperationSink\<close>, so
  the two fallbacks for other fan-outs are never taken.\<close>

definition attempt_push :: "moment \<Rightarrow> string \<Rightarrow> pendingPush \<Rightarrow> 's pusher \<Rightarrow> error \<times> 's pusher" where
  "attempt_push now sink pending p = (case p of
      PlainPusher ops s \<Rightarrow>
        (let (err, s') = (if pp_Full pending then s_PushAll ops (pp_Trigger pending) (pp_Batch pending) s
                          else s_Push ops (pp_Trigger pending) [map_option snd (pp_Instance pending)] s)
         in (err, PlainPusher ops s'))
    | FanoutPusher f \<Rightarrow>
        (let (err, f') = (if pp_Full pending
                          then f_PushAllOperation (\<lambda>_. now) (retry_operation sink pending) f
                          else f_PushTo sink (pp_Trigger pending) [map_option snd (pp_Instance pending)] f)
         in (err, FanoutPusher f')))"

fun push_keys ::
  "(inst \<Rightarrow> string option) \<Rightarrow> moment \<Rightarrow> string \<Rightarrow> retry_store \<Rightarrow> retryKey list \<Rightarrow> 's UnsyncedService \<Rightarrow> 's UnsyncedService" where
  "push_keys marshal now sink batch [] u = u"
| "push_keys marshal now sink batch (key # keys) u =
    (case map_of batch key of
       None \<Rightarrow> push_keys marshal now sink batch keys u
     | Some pending \<Rightarrow>
        let (err, p) = attempt_push now sink pending (u_pusher u)
        in push_keys marshal now sink batch keys
             (u\<lparr>u_pusher := p, u_store := retryKeyed marshal key pending err (u_store u)\<rparr>))"

definition pushSinkOnce ::
  "(inst \<Rightarrow> string option) \<Rightarrow> moment \<Rightarrow> retry_store \<Rightarrow> string \<Rightarrow> 's UnsyncedService \<Rightarrow> 's UnsyncedService" where
  "pushSinkOnce marshal now batch sink u =
     push_keys marshal now sink batch (keysForSink batch sink) u"

definition syncOnce ::
  "(inst \<Rightarrow> string option) \<Rightarrow> moment \<Rightarrow> 's UnsyncedService \<Rightarrow> 's UnsyncedService" where
  "syncOnce marshal now u =
    (let batch = u_store u;
         names = sinkNames (u_pusher u);
         u = u\<lparr>u_store := dropGhostSinkKeys marshal names batch (u_store u)\<rparr>
     in fold (pushSinkOnce marshal now batch) names u)"

section \<open>Well-formed stores\<close>

text \<open>Incremental and full entries never share a key: an incremental entry has
  an instance and its key is the one of that instance, a full entry is stored
  under the key of its scope.\<close>

definition entry_wf :: "retryKey \<Rightarrow> pendingPush \<Rightarrow> bool" where
  "entry_wf k p = (if pp_Full p then k = full_key (rk_Sink k) (pp_Scope p)
     else \<exists>a i. pp_Instance p = Some (a, i) \<and> k = add_key i (rk_Sink k))"

definition retry_wf :: "retry_store \<Rightarrow> bool" where
  "retry_wf st = (awf st \<and> (\<forall>k p. map_of st k = Some p \<longrightarrow> entry_wf k p))"

text \<open>What an entry stands for: the revision of its instance, or the sequence
  number of its snapshot.\<close>

definition rank :: "pendingPush \<Rightarrow> int" where
  "rank p = (if pp_Full p then uint (pp_FullRevision p)
     else case pp_Instance p of Some (a, i) \<Rightarrow> Reversion i | None \<Rightarrow> 0)"

lemma keys_differ: "add_key i s \<noteq> full_key s' sc"
  by (simp add: add_key_def full_key_def RetryPush_def RetryPushAll_def)

lemma add_key_sink [simp]: "rk_Sink (add_key i s) = s"
  by (simp add: add_key_def)

lemma full_key_sink [simp]: "rk_Sink (full_key s sc) = s"
  by (simp add: full_key_def)

lemma entry_wf_add_key:
  "entry_wf (add_key i s) p \<Longrightarrow> \<not> pp_Full p \<and> (\<exists>a j. pp_Instance p = Some (a, j) \<and> IdentityKey j = IdentityKey i)"
  unfolding entry_wf_def by (auto simp: keys_differ split: if_splits) (auto simp: add_key_def)

lemma entry_wf_full_key: "entry_wf (full_key s sc) p \<Longrightarrow> pp_Full p"
  unfolding entry_wf_def by (auto simp: keys_differ [symmetric] split: if_splits)

lemma retry_wf_aupd: "retry_wf st \<Longrightarrow> entry_wf k p \<Longrightarrow> retry_wf (aupd k p st)"
  by (simp add: retry_wf_def)

lemma retry_wf_adel: "retry_wf st \<Longrightarrow> retry_wf (adel k st)"
  by (simp add: retry_wf_def)

lemma entry_wf_new: "entry_wf (add_key (snd item) s) (new_pending t item)"
  by (cases item) (simp add: entry_wf_def new_pending_def)

lemma entry_wf_replace:
  assumes "entry_wf (add_key (snd item) s) old"
  shows "entry_wf (add_key (snd item) s) (old\<lparr>pp_Instance := Some item\<rparr>)"
  using entry_wf_add_key [OF assms] by (cases item) (auto simp: entry_wf_def)

lemma rank_new [simp]: "rank (new_pending t item) = Reversion (snd item)"
  by (cases item) (simp add: rank_def new_pending_def)

lemma add_one_spec:
  assumes "retry_wf st"
  obtains st' p where "add_one t item s st = Some st'" "retry_wf st'"
    "map_of st' (add_key (snd item) s) = Some p" "Reversion (snd item) \<le> rank p"
    "\<And>q. map_of st (add_key (snd item) s) = Some q \<Longrightarrow> rank q \<le> rank p"
    "\<And>k. k \<noteq> add_key (snd item) s \<Longrightarrow> map_of st' k = map_of st k"
proof (cases "map_of st (add_key (snd item) s)")
  case None
  then show thesis using assms
    by (intro that [of "aupd (add_key (snd item) s) (new_pending t item) st" "new_pending t item"])
      (simp_all add: add_one_def Let_def retry_wf_aupd entry_wf_new)
next
  case (Some old)
  then have wf: "entry_wf (add_key (snd item) s) old" using assms by (auto simp: retry_wf_def)
  then obtain a j where old: "\<not> pp_Full old" "pp_Instance old = Some (a, j)"
    using entry_wf_add_key by blast
  show thesis
  proof (cases "Reversion (snd item) > Reversion j")
    case True
    with Some old show thesis using assms wf
      by (intro that [of "aupd (add_key (snd item) s) (old\<lparr>pp_Instance := Some item\<rparr>) st" "old\<lparr>pp_Instance := Some item\<rparr>"])
        (auto simp: add_one_def Let_def retry_wf_aupd entry_wf_replace rank_def split: prod.splits)
  next
    case False
    with Some old show thesis using assms
      by (intro that [of st old]) (auto simp: add_one_def Let_def rank_def)
  qed
qed

text \<open>What adding does to a store: no entry loses rank and only keys that
  satisfy \<open>T\<close> change.\<close>

definition grows :: "(retryKey \<Rightarrow> bool) \<Rightarrow> retry_store \<Rightarrow> retry_store \<Rightarrow> bool" where
  "grows T st st' = (\<forall>k. (\<forall>p. map_of st k = Some p \<longrightarrow> (\<exists>p'. map_of st' k = Some p' \<and> rank p \<le> rank p'))
     \<and> (\<not> T k \<longrightarrow> map_of st' k = map_of st k))"

lemma grows_refl [simp]: "grows T st st"
  by (simp add: grows_def)

lemma grows_trans: "grows T a b \<Longrightarrow> grows T b c \<Longrightarrow> grows T a c"
  unfolding grows_def by (metis order_trans)

lemma grows_mono: "grows T a b \<Longrightarrow> (\<And>k. T k \<Longrightarrow> T' k) \<Longrightarrow> grows T' a b"
  unfolding grows_def by blast

lemma add_one_grows:
  assumes "retry_wf st"
  obtains st' where "add_one t item s st = Some st'" "retry_wf st'"
    "grows (\<lambda>k. k = add_key (snd item) s) st st'"
    "\<exists>p. map_of st' (add_key (snd item) s) = Some p \<and> Reversion (snd item) \<le> rank p"
proof (rule add_one_spec [OF assms, of t item s])
  fix st' p
  assume a: "add_one t item s st = Some st'" "retry_wf st'"
    "map_of st' (add_key (snd item) s) = Some p" "Reversion (snd item) \<le> rank p"
    "\<And>q. map_of st (add_key (snd item) s) = Some q \<Longrightarrow> rank q \<le> rank p"
    "\<And>k. k \<noteq> add_key (snd item) s \<Longrightarrow> map_of st' k = map_of st k"
  then have "grows (\<lambda>k. k = add_key (snd item) s) st st'"
    unfolding grows_def by (metis order_refl)
  with a show thesis by (intro that) auto
qed

lemma add_sinks_grows:
  assumes "retry_wf st"
  shows "\<exists>st'. add_sinks t item sinks st = Some st' \<and> retry_wf st'
    \<and> grows (\<lambda>k. \<exists>s \<in> set sinks. k = add_key (snd item) s) st st'
    \<and> (\<forall>s \<in> set sinks. \<exists>p. map_of st' (add_key (snd item) s) = Some p \<and> Reversion (snd item) \<le> rank p)"
  using assms
proof (induction sinks arbitrary: st)
  case (Cons s sinks)
  obtain st1 where 1: "add_one t item s st = Some st1" "retry_wf st1"
    "grows (\<lambda>k. k = add_key (snd item) s) st st1"
    "\<exists>p. map_of st1 (add_key (snd item) s) = Some p \<and> Reversion (snd item) \<le> rank p"
    using add_one_grows [OF Cons.prems] by blast
  from Cons.IH [OF 1(2)] obtain st2 where 2: "add_sinks t item sinks st1 = Some st2" "retry_wf st2"
    "grows (\<lambda>k. \<exists>s \<in> set sinks. k = add_key (snd item) s) st1 st2"
    "\<forall>s \<in> set sinks. \<exists>p. map_of st2 (add_key (snd item) s) = Some p \<and> Reversion (snd item) \<le> rank p"
    by blast
  have "grows (\<lambda>k. \<exists>s' \<in> set (s # sinks). k = add_key (snd item) s') st st2"
    by (rule grows_trans [OF grows_mono [OF 1(3)] grows_mono [OF 2(3)]]) auto
  moreover have "\<exists>p. map_of st2 (add_key (snd item) s) = Some p \<and> Reversion (snd item) \<le> rank p"
    using 1(4) 2(3) unfolding grows_def by (meson order_trans)
  ultimately show ?case using 1(1) 2 by auto
qed simp

lemma add_items_grows:
  assumes "retry_wf st"
  shows "\<exists>st'. add_items t items sinks st = Some st' \<and> retry_wf st'
    \<and> grows (\<lambda>k. \<exists>a i s. Some (a, i) \<in> set items \<and> s \<in> set sinks \<and> k = add_key i s) st st'
    \<and> (\<forall>a i s. Some (a, i) \<in> set items \<and> s \<in> set sinks \<longrightarrow>
         (\<exists>p. map_of st' (add_key i s) = Some p \<and> Reversion i \<le> rank p))"
  using assms
proof (induction t items sinks st rule: add_items.induct)
  case (2 t items sinks st)
  then show ?case by auto
next
  case (3 t item items sinks st)
  obtain st1 where 1: "add_sinks t item sinks st = Some st1" "retry_wf st1"
    "grows (\<lambda>k. \<exists>s \<in> set sinks. k = add_key (snd item) s) st st1"
    "\<forall>s \<in> set sinks. \<exists>p. map_of st1 (add_key (snd item) s) = Some p \<and> Reversion (snd item) \<le> rank p"
    using add_sinks_grows [OF "3.prems"] by blast
  from "3.IH" [OF 1(1,2)] obtain st2 where 2: "add_items t items sinks st1 = Some st2" "retry_wf st2"
    "grows (\<lambda>k. \<exists>a i s. Some (a, i) \<in> set items \<and> s \<in> set sinks \<and> k = add_key i s) st1 st2"
    "\<forall>a i s. Some (a, i) \<in> set items \<and> s \<in> set sinks \<longrightarrow>
       (\<exists>p. map_of st2 (add_key i s) = Some p \<and> Reversion i \<le> rank p)" by blast
  have "grows (\<lambda>k. \<exists>a i s. Some (a, i) \<in> set (Some item # items) \<and> s \<in> set sinks \<and> k = add_key i s) st st2"
    by (rule grows_trans [OF grows_mono [OF 1(3)] grows_mono [OF 2(3)]]) (cases item; auto)+
  moreover have "\<exists>p. map_of st2 (add_key (snd item) s) = Some p \<and> Reversion (snd item) \<le> rank p" if "s \<in> set sinks" for s
    using 1(4) 2(3) that unfolding grows_def by (meson order_trans)
  ultimately show ?case using 1(1) 2 by (cases item) auto
qed simp

text \<open>The sinks an addition is queued for.\<close>

definition targets_of :: "string list \<Rightarrow> 's pusher \<Rightarrow> string list" where
  "targets_of sinks p = (if sinks = [] then sinkNames p else sinks)"

lemma Add_grows:
  assumes "retry_wf st"
  shows "\<exists>st'. Add t items sinks p st = Some st' \<and> retry_wf st'
    \<and> grows (\<lambda>k. \<exists>a i s. Some (a, i) \<in> set items \<and> s \<in> set (targets_of sinks p) \<and> k = add_key i s) st st'
    \<and> (\<forall>a i s. Some (a, i) \<in> set items \<and> s \<in> set (targets_of sinks p) \<longrightarrow>
         (\<exists>e. map_of st' (add_key i s) = Some e \<and> Reversion i \<le> rank e))"
  using add_items_grows [OF assms, of t items "targets_of sinks p"] assms
  by (auto simp: Add_def Let_def targets_of_def)

lemma add_full_one_grows:
  assumes "retry_wf st" and "pp_Full p"
  shows "retry_wf (add_full_one p s st) \<and> grows (\<lambda>k. k = full_key s (pp_Scope p)) st (add_full_one p s st)
    \<and> (\<exists>q. map_of (add_full_one p s st) (full_key s (pp_Scope p)) = Some q \<and> rank p \<le> rank q)"
proof -
  have wf: "entry_wf (full_key s (pp_Scope p)) p" using assms(2) by (simp add: entry_wf_def)
  have old: "pp_Full old" if "map_of st (full_key s (pp_Scope p)) = Some old" for old
    using assms(1) that entry_wf_full_key unfolding retry_wf_def by blast
  show ?thesis using assms old retry_wf_aupd [OF assms(1) wf]
    by (auto simp: add_full_one_def Let_def grows_def rank_def word_less_def word_le_def not_less
        split: option.splits)
qed

lemma add_full_fold_grows:
  assumes "retry_wf st" and "pp_Full p"
  shows "retry_wf (fold (add_full_one p) sinks st)
    \<and> grows (\<lambda>k. \<exists>s \<in> set sinks. k = full_key s (pp_Scope p)) st (fold (add_full_one p) sinks st)
    \<and> (\<forall>s \<in> set sinks. \<exists>q. map_of (fold (add_full_one p) sinks st) (full_key s (pp_Scope p)) = Some q \<and> rank p \<le> rank q)"
  using assms(1)
proof (induction sinks arbitrary: st)
  case (Cons s sinks)
  note 1 = add_full_one_grows [OF Cons.prems assms(2), of s]
  note 2 = Cons.IH [of "add_full_one p s st"]
  have "grows (\<lambda>k. \<exists>s' \<in> set (s # sinks). k = full_key s' (pp_Scope p)) st (fold (add_full_one p) sinks (add_full_one p s st))"
    by (rule grows_trans [of _ _ "add_full_one p s st"]; rule grows_mono, (use 1 2 in blast), auto)
  moreover have "\<exists>q. map_of (fold (add_full_one p) sinks (add_full_one p s st)) (full_key s (pp_Scope p)) = Some q \<and> rank p \<le> rank q"
    using 1 2 unfolding grows_def by (meson order_trans)
  ultimately show ?case using 1 2 by auto
qed simp

section \<open>Deletion by comparison\<close>

text \<open>An address names one object: every queued instance is the object at its
  address.\<close>

definition heap_ok :: "(nat \<Rightarrow> inst) \<Rightarrow> retry_store \<Rightarrow> bool" where
  "heap_ok h st = (\<forall>k p a i. map_of st k = Some p \<longrightarrow> pp_Instance p = Some (a, i) \<longrightarrow> i = h a)"

lemma samePending_rank:
  assumes "samePending marshal c p"
    and "\<And>a i. pp_Instance c = Some (a, i) \<Longrightarrow> i = h a" and "\<And>a i. pp_Instance p = Some (a, i) \<Longrightarrow> i = h a"
  shows "rank c = rank p"
  using assms
  by (cases "pp_Instance c"; cases "pp_Instance p") (auto simp: samePending_def rank_def split: if_splits)

lemma delete_same_other: "k \<noteq> key \<Longrightarrow> map_of (delete_same marshal key p st) k = map_of st k"
  by (simp add: delete_same_def split: option.splits)

lemma delete_same_cases:
  "map_of (delete_same marshal key p st) key = map_of st key
   \<or> (map_of (delete_same marshal key p st) key = None
      \<and> (\<exists>c. map_of st key = Some c \<and> samePending marshal c p))"
  by (simp add: delete_same_def split: option.splits)

lemma delete_same_sub: "map_of (delete_same marshal key p st) k = Some e \<Longrightarrow> map_of st k = Some e"
  by (auto simp: delete_same_def split: option.splits if_splits)

lemma retry_wf_delete_same [inv_intros]: "retry_wf st \<Longrightarrow> retry_wf (delete_same marshal key p st)"
  by (auto simp: delete_same_def retry_wf_adel split: option.splits)

text \<open>The outcomes after which an entry is not attempted again.\<close>

definition final :: "pendingPush \<Rightarrow> error \<Rightarrow> bool" where
  "final p err = (case err of None \<Rightarrow> True
     | Some e \<Rightarrow> (pp_Full p \<and> errors_Is e errStaleFullPush) \<or> IsPermanentError e)"

lemma retryKeyed_eq:
  "retryKeyed marshal key p err st = (if final p err then delete_same marshal key p st else st)"
  by (simp add: retryKeyed_def final_def split: option.splits)

section \<open>Interleavings\<close>

text \<open>A configuration is the store, the batch of the running cycle, and two
  history components: what was ever added, with its rank, and what was settled,
  with the rank of the attempt that settled it.  Additions may happen between
  any two steps of a cycle, and an attempt may end with any error.\<close>

record conf =
  c_store :: retry_store
  c_batch :: retry_store
  c_added :: "(retryKey \<times> int) set"
  c_settled :: "(retryKey \<times> int) set"

definition init_conf :: conf where
  "init_conf = \<lparr>c_store = [], c_batch = [], c_added = {}, c_settled = {}\<rparr>"

inductive retry_step ::
  "(inst \<Rightarrow> string option) \<Rightarrow> (nat \<Rightarrow> inst) \<Rightarrow> 's pusher \<Rightarrow> conf \<Rightarrow> conf \<Rightarrow> bool"
  for marshal h p where
  step_Add: "Add t items sinks p (c_store c) = Some st' \<Longrightarrow>
     (\<And>a i. Some (a, i) \<in> set items \<Longrightarrow> i = h a) \<Longrightarrow>
     retry_step marshal h p c (c\<lparr>c_store := st', c_added := c_added c \<union>
       {(add_key i s, Reversion i) | a i s. Some (a, i) \<in> set items \<and> s \<in> set (targets_of sinks p)}\<rparr>)"
| step_AddFull: "scope \<noteq> [] \<Longrightarrow> batchID \<noteq> [] \<Longrightarrow>
     seqn' = (if seqn = 0 \<and> t > 0 then word_of_int t else seqn) \<Longrightarrow>
     retry_step marshal h p c (c\<lparr>
       c_store := AddFullWithMeta t items sinks scope batchID seqn rv confirmed p (c_store c),
       c_added := c_added c \<union> {(full_key s scope, uint seqn') | s. s \<in> set (targets_of sinks p)}\<rparr>)"
| step_snapshot: "retry_step marshal h p c (c\<lparr>c_batch := c_store c\<rparr>)"
| step_ghost: "map_of (c_batch c) key = Some pending \<Longrightarrow> rk_Sink key \<notin> set (sinkNames p) \<Longrightarrow>
     retry_step marshal h p c (c\<lparr>
       c_store := delete_same marshal key pending (c_store c),
       c_settled := insert (key, rank pending) (c_settled c)\<rparr>)"
| step_attempt: "map_of (c_batch c) key = Some pending \<Longrightarrow> rk_Sink key \<in> set (sinkNames p) \<Longrightarrow>
     retry_step marshal h p c (c\<lparr>
       c_store := retryKeyed marshal key pending err (c_store c),
       c_settled := (if final pending err then insert (key, rank pending) (c_settled c) else c_settled c)\<rparr>)"

text \<open>Everything added is still queued at its rank or higher, or was settled by
  an attempt at its rank or higher.\<close>

definition nothing_lost :: "conf \<Rightarrow> bool" where
  "nothing_lost c = (\<forall>(k, r) \<in> c_added c. (\<exists>p. map_of (c_store c) k = Some p \<and> r \<le> rank p)
     \<or> (\<exists>r'. (k, r') \<in> c_settled c \<and> r \<le> r'))"

definition conf_ok :: "(nat \<Rightarrow> inst) \<Rightarrow> conf \<Rightarrow> bool" where
  "conf_ok h c = (retry_wf (c_store c) \<and> heap_ok h (c_store c) \<and> heap_ok h (c_batch c) \<and> nothing_lost c)"

lemma nothing_lost_grows:
  assumes "nothing_lost c" and "grows T (c_store c) st'"
    and "\<And>k r. (k, r) \<in> A \<Longrightarrow> \<exists>p. map_of st' k = Some p \<and> r \<le> rank p"
  shows "nothing_lost (c\<lparr>c_store := st', c_added := c_added c \<union> A\<rparr>)"
  using assms unfolding nothing_lost_def grows_def by (fastforce intro: order_trans)

lemma nothing_lost_delete:
  assumes "nothing_lost c" and "heap_ok h (c_store c)" and "heap_ok h (c_batch c)"
    and "map_of (c_batch c) key = Some pending"
  shows "nothing_lost (c\<lparr>c_store := delete_same marshal key pending (c_store c),
     c_settled := insert (key, rank pending) (c_settled c)\<rparr>)"
proof -
  have same: "rank x = rank pending"
    if "map_of (c_store c) key = Some x" "samePending marshal x pending" for x
    using that assms(2-4) by (intro samePending_rank [of marshal x pending h]) (auto simp: heap_ok_def)
  have keep: "(\<exists>q. map_of (delete_same marshal key pending (c_store c)) k = Some q \<and> r \<le> rank q)
      \<or> k = key \<and> r \<le> rank pending" if "map_of (c_store c) k = Some q" "r \<le> rank q" for k r q
    using that same delete_same_other [of k key marshal pending "c_store c"]
      delete_same_cases [of marshal key pending "c_store c"] by (cases "k = key") auto
  show ?thesis
    using assms(1) keep unfolding nothing_lost_def by fastforce
qed

definition ptr_ok :: "(nat \<Rightarrow> inst) \<Rightarrow> pendingPush \<Rightarrow> bool" where
  "ptr_ok h p = (case pp_Instance p of None \<Rightarrow> True | Some (a, i) \<Rightarrow> i = h a)"

lemma heap_ok_iff: "heap_ok h st \<longleftrightarrow> (\<forall>k p. map_of st k = Some p \<longrightarrow> ptr_ok h p)"
  unfolding heap_ok_def ptr_ok_def by (auto split: option.splits)

lemma heap_ok_aupd: "heap_ok h st \<Longrightarrow> ptr_ok h p \<Longrightarrow> heap_ok h (aupd k p st)"
  by (simp add: heap_ok_iff)

lemma heap_ok_add_one:
  assumes "add_one t item s st = Some st'" and "heap_ok h st" and "snd item = h (fst item)"
  shows "heap_ok h st'"
proof -
  have "ptr_ok h (new_pending t item)" "ptr_ok h (old\<lparr>pp_Instance := Some item\<rparr>)" for old
    using assms(3) by (simp_all add: ptr_ok_def new_pending_def split_beta)
  with assms(1,2) show ?thesis
    by (auto simp: add_one_def Let_def heap_ok_aupd split: option.splits if_splits)
qed

lemma heap_ok_add_sinks:
  "add_sinks t item ss st = Some st' \<Longrightarrow> heap_ok h st \<Longrightarrow> snd item = h (fst item) \<Longrightarrow> heap_ok h st'"
  by (induction t item ss st arbitrary: st' rule: add_sinks.induct)
    (auto split: option.splits dest: heap_ok_add_one)

lemma heap_ok_add_items:
  "add_items t items ss st = Some st' \<Longrightarrow> heap_ok h st \<Longrightarrow> (\<And>a i. Some (a, i) \<in> set items \<Longrightarrow> i = h a)
    \<Longrightarrow> heap_ok h st'"
proof (induction t items ss st arbitrary: st' rule: add_items.induct)
  case (3 t item items ss st)
  then obtain st1 where 1: "add_sinks t item ss st = Some st1" "add_items t items ss st1 = Some st'"
    by (auto split: option.splits)
  have "snd item = h (fst item)" using "3.prems"(3) [of "fst item" "snd item"] by simp
  then have "heap_ok h st1" using heap_ok_add_sinks 1(1) "3.prems"(2) by blast
  with "3.IH" [OF 1(1) 1(2)] "3.prems"(3) show ?case by simp
qed simp_all

lemma heap_ok_Add:
  assumes "Add t items sinks p st = Some st'" and "heap_ok h st" and "\<And>a i. Some (a, i) \<in> set items \<Longrightarrow> i = h a"
  shows "heap_ok h st'"
  using assms heap_ok_add_items [of t items _ st st' h] by (auto simp: Add_def Let_def split: if_splits)

lemma heap_ok_full:
  assumes "heap_ok h st" and "pp_Instance p = None"
  shows "heap_ok h (fold (add_full_one p) ss st)"
proof -
  have "ptr_ok h p" using assms(2) by (simp add: ptr_ok_def)
  then have "heap_ok h (add_full_one p s st)" if "heap_ok h st" for s st
    using that by (simp add: add_full_one_def Let_def heap_ok_aupd split: option.splits)
  with assms(1) show ?thesis by (induction ss arbitrary: st) simp_all
qed

lemma heap_ok_delete_same: "heap_ok h st \<Longrightarrow> heap_ok h (delete_same marshal key p st)"
  unfolding heap_ok_def by (blast dest: delete_same_sub)

lemma conf_okI:
  "retry_wf (c_store c) \<Longrightarrow> heap_ok h (c_store c) \<Longrightarrow> heap_ok h (c_batch c) \<Longrightarrow> nothing_lost c \<Longrightarrow> conf_ok h c"
  by (simp add: conf_ok_def)

lemma conf_okD:
  "conf_ok h c \<Longrightarrow> retry_wf (c_store c)" "conf_ok h c \<Longrightarrow> heap_ok h (c_store c)"
  "conf_ok h c \<Longrightarrow> heap_ok h (c_batch c)" "conf_ok h c \<Longrightarrow> nothing_lost c"
  by (simp_all add: conf_ok_def)

lemma conf_ok_delete:
  assumes "conf_ok h c" and "map_of (c_batch c) key = Some pending"
  shows "conf_ok h (c\<lparr>c_store := delete_same marshal key pending (c_store c),
     c_settled := insert (key, rank pending) (c_settled c)\<rparr>)"
  using conf_okD [OF assms(1)] assms(2) nothing_lost_delete
  by (intro conf_okI) (simp_all add: retry_wf_delete_same heap_ok_delete_same)

lemma conf_ok_Add:
  assumes ok: "conf_ok h c" and "Add t items sinks p (c_store c) = Some st'"
    and "\<And>a i. Some (a, i) \<in> set items \<Longrightarrow> i = h a"
  shows "conf_ok h (c\<lparr>c_store := st', c_added := c_added c \<union>
       {(add_key i s, Reversion i) | a i s. Some (a, i) \<in> set items \<and> s \<in> set (targets_of sinks p)}\<rparr>)"
proof -
  from Add_grows [OF conf_okD(1) [OF ok], of t items sinks p] assms(2) have st': "retry_wf st'"
    "grows (\<lambda>k. \<exists>a i s. Some (a, i) \<in> set items \<and> s \<in> set (targets_of sinks p) \<and> k = add_key i s) (c_store c) st'"
    "\<And>a i s. Some (a, i) \<in> set items \<Longrightarrow> s \<in> set (targets_of sinks p) \<Longrightarrow>
       \<exists>e. map_of st' (add_key i s) = Some e \<and> Reversion i \<le> rank e" by auto
  have "heap_ok h st'" using heap_ok_Add [OF assms(2) conf_okD(2) [OF ok] assms(3)] .
  moreover have "nothing_lost (c\<lparr>c_store := st', c_added := c_added c \<union>
       {(add_key i s, Reversion i) | a i s. Some (a, i) \<in> set items \<and> s \<in> set (targets_of sinks p)}\<rparr>)"
    by (rule nothing_lost_grows [OF conf_okD(4) [OF ok] st'(2)]) (use st'(3) in blast)
  ultimately show ?thesis using st'(1) conf_okD(3) [OF ok] by (intro conf_okI) simp_all
qed

lemma conf_ok_AddFull:
  assumes ok: "conf_ok h c" and "pp_Full pd" "pp_Instance pd = None"
  shows "conf_ok h (c\<lparr>c_store := fold (add_full_one pd) ss (c_store c),
     c_added := c_added c \<union> {(full_key s (pp_Scope pd), rank pd) | s. s \<in> set ss}\<rparr>)"
proof -
  note g = add_full_fold_grows [OF conf_okD(1) [OF ok] assms(2), of ss]
  have "nothing_lost (c\<lparr>c_store := fold (add_full_one pd) ss (c_store c),
     c_added := c_added c \<union> {(full_key s (pp_Scope pd), rank pd) | s. s \<in> set ss}\<rparr>)"
    by (rule nothing_lost_grows [OF conf_okD(4) [OF ok]]) (use g in blast)+
  with g heap_ok_full [OF conf_okD(2) [OF ok] assms(3)] conf_okD(3) [OF ok] show ?thesis
    by (intro conf_okI) simp_all
qed

lemma conf_ok_step:
  assumes "retry_step marshal h p c c'" and "conf_ok h c"
  shows "conf_ok h c'"
  using assms
proof cases
  case (step_Add t items sinks st')
  then show ?thesis using conf_ok_Add [OF assms(2) step_Add(2)] step_Add(3) by blast
next
  case (step_AddFull scope batchID seqn' seqn t sinks items rv confirmed)
  let ?p = "full_pending t items scope batchID seqn' rv confirmed"
  have st: "AddFullWithMeta t items sinks scope batchID seqn rv confirmed p (c_store c)
      = fold (add_full_one ?p) (targets_of sinks p) (c_store c)"
    using step_AddFull by (simp add: AddFullWithMeta_def targets_of_def Let_def)
  have "pp_Full ?p" "pp_Scope ?p = scope" "rank ?p = uint seqn'" "pp_Instance ?p = None"
    by (simp_all add: full_pending_def rank_def)
  with conf_ok_AddFull [OF assms(2), of ?p "targets_of sinks p"] step_AddFull(1) show ?thesis
    unfolding st by simp
next
  case step_snapshot
  then show ?thesis using assms(2) by (simp add: conf_ok_def nothing_lost_def)
next
  case (step_ghost key pending)
  then show ?thesis using conf_ok_delete [OF assms(2)] by simp
next
  case (step_attempt key pending err)
  then show ?thesis using assms(2) conf_ok_delete [OF assms(2)]
    by (cases "final pending err") (simp_all add: retryKeyed_eq)
qed

lemma conf_ok_reach:
  "(retry_step marshal h p)\<^sup>*\<^sup>* init_conf c \<Longrightarrow> conf_ok h c"
proof (induction rule: rtranclp_induct)
  case base
  show ?case by (simp add: conf_ok_def init_conf_def retry_wf_def heap_ok_def nothing_lost_def)
next
  case (step y z)
  then show ?case using conf_ok_step by blast
qed

text \<open>C1: The retry queue loses no update under any interleaving of additions with
  the steps of retry cycles: everything ever added is still queued at its
  revision (or snapshot sequence) or a newer one, or an attempt at its revision
  or a newer one was settled, that is it succeeded, failed permanently, was a
  stale snapshot, or its sink is not registered.  In particular an update added
  while an older one is in flight survives the success of the older one.\<close>

theorem retry_queue_loses_no_update:
  assumes "(retry_step marshal h p)\<^sup>*\<^sup>* init_conf c" and "(k, r) \<in> c_added c"
  shows "(\<exists>e. map_of (c_store c) k = Some e \<and> r \<le> rank e) \<or> (\<exists>r'. (k, r') \<in> c_settled c \<and> r \<le> r')"
  using conf_ok_reach [OF assms(1)] assms(2) by (auto simp: conf_ok_def nothing_lost_def)

text \<open>Adding failed pushes never dereferences a nil instance and keeps the
  store well-formed; it queues every non-nil instance for each of its target
  sinks at its revision or a newer one, lowers no entry, and touches no key of
  another instance or of another sink.\<close>

theorem Add_queues_for_targets:
  assumes "retry_wf st"
  shows "\<exists>st'. Add t items sinks p st = Some st' \<and> retry_wf st'
    \<and> (\<forall>a i s. Some (a, i) \<in> set items \<and> s \<in> set (targets_of sinks p) \<longrightarrow>
         (\<exists>e. map_of st' (add_key i s) = Some e \<and> Reversion i \<le> rank e))
    \<and> (\<forall>k e. map_of st k = Some e \<longrightarrow> (\<exists>e'. map_of st' k = Some e' \<and> rank e \<le> rank e'))
    \<and> (\<forall>k. (\<forall>a i s. Some (a, i) \<in> set items \<and> s \<in> set (targets_of sinks p) \<longrightarrow> k \<noteq> add_key i s)
         \<longrightarrow> map_of st' k = map_of st k)"
  using Add_grows [OF assms, of t items sinks p] unfolding grows_def by blast

section \<open>The cycle of the code is a run of steps\<close>

text \<open>The store a cycle leaves, with nothing interleaved, is one the step
  relation reaches: each phase is a sequence of its steps.\<close>

definition reaches :: "(conf \<Rightarrow> conf \<Rightarrow> bool) \<Rightarrow> conf \<Rightarrow> retry_store \<Rightarrow> bool" where
  "reaches R c st = (\<exists>S. R\<^sup>*\<^sup>* c (c\<lparr>c_store := st, c_settled := S\<rparr>))"

lemma reaches_refl: "c_store c = st \<Longrightarrow> reaches R c st"
  unfolding reaches_def by (rule exI [of _ "c_settled c"]) (cases c; simp)

lemma reaches_trans:
  assumes "reaches R c st1" and "\<And>S. reaches R (c\<lparr>c_store := st1, c_settled := S\<rparr>) st2"
  shows "reaches R c st2"
proof -
  obtain S1 where 1: "R\<^sup>*\<^sup>* c (c\<lparr>c_store := st1, c_settled := S1\<rparr>)" using assms(1) reaches_def by blast
  obtain S2 where "R\<^sup>*\<^sup>* (c\<lparr>c_store := st1, c_settled := S1\<rparr>) (c\<lparr>c_store := st2, c_settled := S2\<rparr>)"
    using assms(2) [of S1] by (auto simp: reaches_def)
  with 1 show ?thesis unfolding reaches_def by (blast intro: rtranclp_trans)
qed

lemma reaches_step: "R c (c\<lparr>c_store := st, c_settled := S\<rparr>) \<Longrightarrow> reaches R c st"
  unfolding reaches_def by blast

lemma ghost_steps:
  assumes "\<And>k q. (k, q) \<in> set gs \<Longrightarrow> map_of (c_batch c) k = Some q \<and> rk_Sink k \<notin> set (sinkNames p)"
  shows "reaches (retry_step marshal h p) c (fold (\<lambda>(key, a). delete_same marshal key a) gs (c_store c))"
  using assms
proof (induction gs arbitrary: c)
  case Nil
  show ?case by (rule reaches_refl) simp
next
  case (Cons g gs)
  obtain k q where g: "g = (k, q)" by (cases g)
  let ?st = "delete_same marshal k q (c_store c)"
  have "reaches (retry_step marshal h p) c ?st"
    by (rule reaches_step, rule step_ghost) (use Cons.prems g in auto)
  then show ?case
  proof (rule reaches_trans)
    fix S
    have "map_of (c_batch (c\<lparr>c_store := ?st, c_settled := S\<rparr>)) k' = Some q' \<and> rk_Sink k' \<notin> set (sinkNames p)"
      if "(k', q') \<in> set gs" for k' q' using Cons.prems [of k' q'] that by simp
    from Cons.IH [OF this] show "reaches (retry_step marshal h p) (c\<lparr>c_store := ?st, c_settled := S\<rparr>)
        (fold (\<lambda>(key, a). delete_same marshal key a) (g # gs) (c_store c))"
      using g by simp
  qed
qed

lemma push_keys_steps:
  assumes "\<And>k. k \<in> set keys \<Longrightarrow> rk_Sink k \<in> set (sinkNames p)" and "c_store c = u_store u"
  shows "reaches (retry_step marshal h p) c (u_store (push_keys marshal now sink (c_batch c) keys u))"
  using assms
proof (induction keys arbitrary: c u)
  case Nil
  then show ?case by (simp add: reaches_refl)
next
  case (Cons k keys)
  show ?case
  proof (cases "map_of (c_batch c) k")
    case None
    then show ?thesis using Cons by simp
  next
    case (Some q)
    obtain err p' where a: "attempt_push now sink q (u_pusher u) = (err, p')" by fastforce
    let ?st = "retryKeyed marshal k q err (c_store c)"
    let ?u = "u\<lparr>u_pusher := p', u_store := ?st\<rparr>"
    have "reaches (retry_step marshal h p) c ?st"
      by (rule reaches_step, rule step_attempt) (use Cons.prems Some in auto)
    then show ?thesis
    proof (rule reaches_trans)
      fix S
      show "reaches (retry_step marshal h p) (c\<lparr>c_store := ?st, c_settled := S\<rparr>)
          (u_store (push_keys marshal now sink (c_batch c) (k # keys) u))"
        using Cons.IH [of "c\<lparr>c_store := ?st, c_settled := S\<rparr>" ?u] Cons.prems Some a by simp
    qed
  qed
qed

lemma pushSink_steps:
  assumes "set names \<subseteq> set (sinkNames p)" and "c_store c = u_store u"
  shows "reaches (retry_step marshal h p) c (u_store (fold (pushSinkOnce marshal now (c_batch c)) names u))"
  using assms
proof (induction names arbitrary: c u)
  case Nil
  then show ?case by (simp add: reaches_refl)
next
  case (Cons s names)
  let ?u = "pushSinkOnce marshal now (c_batch c) s u"
  have "reaches (retry_step marshal h p) c (u_store ?u)"
    unfolding pushSinkOnce_def
    by (rule push_keys_steps) (use Cons.prems in \<open>auto simp: keysForSink_def\<close>)
  then show ?case
  proof (rule reaches_trans)
    fix S
    show "reaches (retry_step marshal h p) (c\<lparr>c_store := u_store ?u, c_settled := S\<rparr>)
        (u_store (fold (pushSinkOnce marshal now (c_batch c)) (s # names) u))"
      using Cons.IH [of "c\<lparr>c_store := u_store ?u, c_settled := S\<rparr>" ?u] Cons.prems by simp
  qed
qed


text \<open>A pusher with one sink that accepts every push.\<close>

definition sample_pusher :: "sink_call list pusher" where
  "sample_pusher = PlainPusher ok_sink []"


theorem retry_queue_loses_no_update_witness:
  "let c = init_conf\<lparr>c_store := [(add_key sample_a ''atlas'', new_pending 9 (1, sample_a))],
             c_added := {(add_key sample_a ''atlas'', 5)}\<rparr>
   in (\<exists>e. map_of (c_store c) (add_key sample_a ''atlas'') = Some e \<and> 5 \<le> rank e)
      \<or> (\<exists>r'. (add_key sample_a ''atlas'', r') \<in> c_settled c \<and> 5 \<le> r')"
proof -
  let ?c = "init_conf\<lparr>c_store := [(add_key sample_a ''atlas'', new_pending 9 (1, sample_a))],
             c_added := {(add_key sample_a ''atlas'', 5)}\<rparr>"
  have add: "Add 9 [Some (1, sample_a)] [''atlas''] sample_pusher (c_store init_conf)
      = Some [(add_key sample_a ''atlas'', new_pending 9 (1, sample_a))]"
    by (simp add: Add_def add_one_def init_conf_def)
  have rev5: "Reversion sample_a = 5" by (simp add: sample_a_def)
  have A: "{(add_key i s, Reversion i) |a i s. Some (a, i) \<in> set [Some (1 :: nat, sample_a)] \<and> s \<in> set (targets_of [''atlas''] sample_pusher)}
      = {(add_key sample_a ''atlas'', 5)}"
    by (auto simp: targets_of_def rev5)
  have "retry_step (\<lambda>_. None) (\<lambda>_. sample_a) sample_pusher init_conf ?c"
    using step_Add [where c = init_conf and h = "\<lambda>_. sample_a", OF add, of "\<lambda>_. None"] A
    by (auto simp: init_conf_def)
  then have r: "(retry_step (\<lambda>_. None) (\<lambda>_. sample_a) sample_pusher)\<^sup>*\<^sup>* init_conf ?c" by blast
  have "(add_key sample_a ''atlas'', 5) \<in> c_added ?c" by simp
  from retry_queue_loses_no_update [OF r this] show ?thesis by (simp add: Let_def)
qed

theorem Add_queues_for_targets_witness:
  "\<exists>st'. Add 9 [Some (1, sample_a), None] [] sample_pusher [] = Some st' \<and> retry_wf st'"
proof -
  have "retry_wf []" by (simp add: retry_wf_def)
  from Add_queues_for_targets [OF this, of 9 "[Some (1, sample_a), None]" "[]" sample_pusher]
  show ?thesis by blast
qed

text \<open>C36: The queue keeps the older of two pushes of one identity when their
  revisions are equal: a removal queued behind a registration at the same
  revision is discarded, so that the next cycle retries the registration.\<close>

theorem Add_equal_revision_keeps_older:
  assumes "map_of st (add_key i s) = Some old" and "pp_Instance old = Some (a, j)"
    and "Reversion i = Reversion j"
  shows "Add t [Some (b, i)] [s] p st = Some st"
  using assms by (simp add: Add_def add_one_def)

theorem Add_equal_revision_keeps_older_witness:
  "Add 10 [Some (2, sample_a\<lparr>Status := InstanceStatusOffline\<rparr>)] [''nacos''] sample_pusher
     [(add_key sample_a ''nacos'', new_pending 9 (1, sample_a))]
   = Some [(add_key sample_a ''nacos'', new_pending 9 (1, sample_a))]"
  by (rule Add_equal_revision_keeps_older [where a = 1 and j = sample_a and old = "new_pending 9 (1, sample_a)"])
    (simp_all add: add_key_def sample_a_def new_pending_def IdentityKey_def)

end
