(* ===== verification/Event_Worker.thy ===== *)
theory Event_Worker
  imports Retry_Queue
begin

text \<open>
  The event worker, \<open>DefaultWorker\<close> of src/pkg/worker/worker.go: the handlers of
  incremental and full synchronisation events, which push to the sinks and
  queue what failed.  The worker's state is the retry service, which holds the
  pusher and the queue.

  An incremental event carries instances by address, since the queue compares
  them so.  The moments at which the sinks call the event's revalidation
  callback are given by \<open>now1\<close> for the first push and \<open>now2\<close> for the second
  one; \<open>clock\<close> is the trigger time of the second push.
\<close>

record Event =
  ev_Trigger :: int64
  ev_Data :: ptr_insts
  ev_Operate :: string
  ev_Revalidate :: revalidate
  ev_Scope :: string
  ev_BatchID :: string
  ev_Sequence :: "64 word"
  ev_Identity :: string
  ev_Revision :: int64
  ev_EmptyConfirmed :: bool

abbreviation ev_insts :: "Event \<Rightarrow> insts" where
  "ev_insts e \<equiv> map (map_option snd) (ev_Data e)"

definition hasNonStaleFanoutFailure :: "go_err \<Rightarrow> bool" where
  "hasNonStaleFanoutFailure err = (case errors_As_fanout err of
      None \<Rightarrow> False
    | Some fs \<Rightarrow> \<exists>(s, e) \<in> set fs. \<not> errors_Is e errStaleFullPush)"

definition queuedSinks :: "'s pusher \<Rightarrow> go_err \<Rightarrow> string list" where
  "queuedSinks p err = failedSinkNames (Some err) (sinkNames p)"

section \<open>Pushing\<close>

definition p_Push :: "int64 \<Rightarrow> insts \<Rightarrow> 's pusher \<Rightarrow> error \<times> 's pusher" where
  "p_Push t xs p = (case p of
      PlainPusher ops s \<Rightarrow> (let (err, s') = s_Push ops t xs s in (err, PlainPusher ops s'))
    | FanoutPusher f \<Rightarrow> (let (err, f') = f_Push t xs f in (err, FanoutPusher f')))"

text \<open>The operation built from an event.\<close>

definition event_operation :: "Event \<Rightarrow> RetryOperation" where
  "event_operation e = zero_op\<lparr>OpOperate := OperateTypeSyncAll, OpScope := ev_Scope e,
     OpBatchID := ev_BatchID e, OpSequence := ev_Sequence e, OpTrigger := ev_Trigger e,
     OpInstances := ev_insts e, OpRevalidate := ev_Revalidate e,
     OpEmptyConfirmed := ev_EmptyConfirmed e\<rparr>"

text \<open>The first push of a full event.  The result is \<^term>\<open>None\<close> when the
  handler returns early, and otherwise the error, the pusher and the data the
  handler goes on with.  A fan-out implements \<open>FullOperationSink\<close>; a plain sink
  that does not has no \<open>PushAllWithRevalidate\<close> either.\<close>

definition first_full ::
  "(nat \<Rightarrow> moment) \<Rightarrow> Event \<Rightarrow> 's pusher \<Rightarrow> (error \<times> 's pusher \<times> insts) option" where
  "first_full now1 e p = (case p of
      FanoutPusher f \<Rightarrow> (let (err, f') = f_PushAllOperation now1 (event_operation e) f
                         in Some (err, FanoutPusher f', ev_insts e))
    | PlainPusher ops s \<Rightarrow>
        (case s_PushAllOperation ops of
           Some g \<Rightarrow> (let (err, s') = g (event_operation e) s in Some (err, PlainPusher ops s', ev_insts e))
         | None \<Rightarrow>
            (case ev_Revalidate e of
               None \<Rightarrow> (let (err, s') = s_PushAll ops (ev_Trigger e) (ev_insts e) s
                        in Some (err, PlainPusher ops s', ev_insts e))
             | Some rv \<Rightarrow> (case rv (now1 0) of
                  None \<Rightarrow> None
                | Some data \<Rightarrow> (let (err, s') = s_PushAll ops (ev_Trigger e) data s
                                in Some (err, PlainPusher ops s', data))))))"

text \<open>The second push, after a stale rejection.\<close>

definition second_full ::
  "(nat \<Rightarrow> moment) \<Rightarrow> int64 \<Rightarrow> revalidate \<Rightarrow> error \<times> 's pusher \<times> insts \<Rightarrow> error \<times> 's pusher \<times> insts" where
  "second_full now2 clock rv r = (case r of (err, p, data) \<Rightarrow> (case p of
      FanoutPusher f \<Rightarrow> (let (err, f') = f_PushAllWithRevalidate now2 clock data rv f
                         in (err, FanoutPusher f', data))
    | PlainPusher ops s \<Rightarrow>
        (case rv of
           None \<Rightarrow> r
         | Some g \<Rightarrow> (case g (now2 0) of
              None \<Rightarrow> r
            | Some fresh \<Rightarrow> (let (err, s') = s_PushAll ops clock fresh s
                             in (err, PlainPusher ops s', fresh))))))"

definition stale_only :: "error \<Rightarrow> bool" where
  "stale_only err = (case err of None \<Rightarrow> False
     | Some e \<Rightarrow> errors_Is e errStaleFullPush \<and> \<not> hasNonStaleFanoutFailure e)"

section \<open>Handlers\<close>

definition handle_sync :: "Event \<Rightarrow> 's UnsyncedService \<Rightarrow> (error \<times> 's UnsyncedService) option" where
  "handle_sync e u =
    (let (err, p) = p_Push (ev_Trigger e) (ev_insts e) (u_pusher u);
         u = u\<lparr>u_pusher := p\<rparr>
     in case err of
       None \<Rightarrow> Some (None, u)
     | Some x \<Rightarrow>
        if ev_Data e = [] then Some (Some x, u)
        else (case Add (ev_Trigger e) (ev_Data e) (queuedSinks p x) p (u_store u) of
                None \<Rightarrow> None
              | Some st \<Rightarrow> Some (Some x, u\<lparr>u_store := st\<rparr>)))"

text \<open>The rest of the full handler, after the pushes.\<close>

definition finish_full :: "Event \<Rightarrow> 's UnsyncedService \<Rightarrow> error \<times> 's pusher \<times> insts \<Rightarrow> error \<times> 's UnsyncedService" where
  "finish_full e u r = (case r of (err, p, data) \<Rightarrow>
     (let u = u\<lparr>u_pusher := p\<rparr> in
      if stale_only err then (None, u)
      else case err of
        None \<Rightarrow> (None, u)
      | Some x \<Rightarrow> (Some x, u\<lparr>u_store := AddFullWithMeta (ev_Trigger e) data (queuedSinks p x) (ev_Scope e)
            (ev_BatchID e) (ev_Sequence e) (ev_Revalidate e) (ev_EmptyConfirmed e) p (u_store u)\<rparr>)))"

definition handle_sync_all ::
  "(nat \<Rightarrow> moment) \<Rightarrow> (nat \<Rightarrow> moment) \<Rightarrow> int64 \<Rightarrow> Event \<Rightarrow> 's UnsyncedService \<Rightarrow> error \<times> 's UnsyncedService" where
  "handle_sync_all now1 now2 clock e u =
    (if ev_Scope e \<noteq> [] \<and> ev_Data e = [] \<and> \<not> ev_EmptyConfirmed e then (None, u)
     else case first_full now1 e (u_pusher u) of
       None \<Rightarrow> (None, u)
     | Some r \<Rightarrow>
        if stale_only (fst r) \<and> ev_Revalidate e \<noteq> None then
          (let r' = second_full now2 clock (ev_Revalidate e) r in
           case fst r' of
             None \<Rightarrow> (None, u\<lparr>u_pusher := fst (snd r')\<rparr>)
           | Some x \<Rightarrow>
              if errors_Is x errStaleFullPush then (None, u\<lparr>u_pusher := fst (snd r')\<rparr>)
              else finish_full e u r')
        else finish_full e u r)"

section \<open>Dispatch\<close>

text \<open>A handler changes the worker's state and may panic.\<close>

type_synonym 's handler = "Event \<Rightarrow> 's UnsyncedService \<Rightarrow> (error \<times> 's UnsyncedService) option"

definition AddEventHandler :: "string \<Rightarrow> 's handler option \<Rightarrow> (string \<times> 's handler) list \<Rightarrow> (string \<times> 's handler) list" where
  "AddEventHandler opt h hs = (case h of Some g \<Rightarrow> if opt \<noteq> [] then aupd opt g hs else hs | None \<Rightarrow> hs)"

definition InitEventHandlers ::
  "(nat \<Rightarrow> moment) \<Rightarrow> (nat \<Rightarrow> moment) \<Rightarrow> int64 \<Rightarrow> (string \<times> 's handler) list" where
  "InitEventHandlers now1 now2 clock =
     AddEventHandler OperateTypeSyncAll (Some (\<lambda>e u. Some (handle_sync_all now1 now2 clock e u)))
       (AddEventHandler OperateTypeSync (Some handle_sync) [])"

definition Handle :: "(string \<times> 's handler) list \<Rightarrow> Event option \<Rightarrow> 's UnsyncedService \<Rightarrow> 's UnsyncedService option" where
  "Handle hs d u = (case d of
      None \<Rightarrow> Some u
    | Some e \<Rightarrow>
       if ev_Operate e = [] then Some u
       else case map_of hs (ev_Operate e) of
         Some call \<Rightarrow> map_option snd (call e u)
       | None \<Rightarrow> Some u)"

section \<open>Full events\<close>

lemma AddFullWithMeta_eq:
  "AddFullWithMeta t items sinks scope batchID seqn rv confirmed p st =
    (if scope = [] \<or> batchID = [] then st
     else fold (add_full_one (full_pending t items scope batchID
       (if seqn = 0 \<and> t > 0 then word_of_int t else seqn) rv confirmed)) (targets_of sinks p) st)"
  by (simp add: AddFullWithMeta_def targets_of_def Let_def)

lemma retry_wf_AddFullWithMeta [inv_intros]:
  "retry_wf st \<Longrightarrow> retry_wf (AddFullWithMeta t items sinks scope batchID seqn rv confirmed p st)"
  using add_full_fold_grows
  by (fastforce simp: AddFullWithMeta_eq full_pending_def)

lemma grows_AddFullWithMeta:
  assumes "retry_wf st"
  shows "grows (\<lambda>k. \<exists>s \<in> set (targets_of sinks p). k = full_key s scope) st
     (AddFullWithMeta t items sinks scope batchID seqn rv confirmed p st)"
proof -
  let ?p = "full_pending t items scope batchID (if seqn = 0 \<and> t > 0 then word_of_int t else seqn) rv confirmed"
  have "pp_Full ?p" "pp_Scope ?p = scope" by (simp_all add: full_pending_def)
  with add_full_fold_grows [OF assms, of ?p "targets_of sinks p"] show ?thesis
    by (simp add: AddFullWithMeta_eq)
qed

lemma finish_full_store:
  "u_store (snd (finish_full e u r)) = u_store u
   \<or> (\<exists>x. fst r = Some x \<and> \<not> stale_only (Some x)
      \<and> u_store (snd (finish_full e u r)) = AddFullWithMeta (ev_Trigger e) (snd (snd r)) (queuedSinks (fst (snd r)) x)
           (ev_Scope e) (ev_BatchID e) (ev_Sequence e) (ev_Revalidate e) (ev_EmptyConfirmed e) (fst (snd r)) (u_store u))"
  by (auto simp: finish_full_def Let_def split: prod.splits option.splits)

lemma handle_sync_all_store:
  fixes u :: "'s UnsyncedService"
  shows "u_store (snd (handle_sync_all now1 now2 clock e u)) = u_store u
   \<or> (\<exists>x (p :: 's pusher) data. \<not> stale_only (Some x)
      \<and> u_store (snd (handle_sync_all now1 now2 clock e u)) = AddFullWithMeta (ev_Trigger e) data (queuedSinks p x)
           (ev_Scope e) (ev_BatchID e) (ev_Sequence e) (ev_Revalidate e) (ev_EmptyConfirmed e) p (u_store u))"
proof -
  have "u_store (snd (handle_sync_all now1 now2 clock e u)) = u_store u
      \<or> (\<exists>r. handle_sync_all now1 now2 clock e u = finish_full e u r)"
    by (auto simp: handle_sync_all_def Let_def simp del: split_paired_Ex split: option.splits)
  then show ?thesis using finish_full_store [of e u] by metis
qed

lemma retry_wf_handle_sync_all [inv_intros]:
  "retry_wf (u_store u) \<Longrightarrow> retry_wf (u_store (snd (handle_sync_all now1 now2 clock e u)))"
  using handle_sync_all_store [of now1 now2 clock e u] retry_wf_AddFullWithMeta by metis

lemma handle_sync_ok:
  assumes "retry_wf (u_store u)"
  shows "\<exists>err u'. handle_sync e u = Some (err, u') \<and> retry_wf (u_store u')"
proof -
  obtain err p where a: "p_Push (ev_Trigger e) (ev_insts e) (u_pusher u) = (err, p)" by fastforce
  show ?thesis
  proof (cases err)
    case None
    then show ?thesis using a assms by (simp add: handle_sync_def)
  next
    case (Some x)
    from Add_grows [OF assms, of "ev_Trigger e" "ev_Data e" "queuedSinks p x" p] obtain st where
      "Add (ev_Trigger e) (ev_Data e) (queuedSinks p x) p (u_store u) = Some st" "retry_wf st" by blast
    then show ?thesis using a Some assms by (cases "ev_Data e = []") (simp_all add: handle_sync_def Let_def)
  qed
qed

text \<open>The worker handles every event without a nil dereference and keeps the
  retry queue well-formed, whatever the sinks answer.\<close>

theorem Handle_total:
  assumes "retry_wf (u_store u)"
  shows "\<exists>u'. Handle (InitEventHandlers now1 now2 clock) d u = Some u' \<and> retry_wf (u_store u')"
proof (cases d)
  case (Some e)
  have "OperateTypeSync \<noteq> OperateTypeSyncAll" "OperateTypeSync \<noteq> []" "OperateTypeSyncAll \<noteq> []"
    by (simp_all add: OperateTypeSync_def OperateTypeSyncAll_def)
  then show ?thesis
    using Some handle_sync_ok [OF assms, of e] retry_wf_handle_sync_all [OF assms] assms
    by (auto simp: Handle_def InitEventHandlers_def AddEventHandler_def)
qed (use assms in \<open>simp add: Handle_def\<close>)

text \<open>A snapshot that is rejected only because it is stale is never queued for
  a retry: if the second push, or the first one when the event cannot be
  revalidated, fails with nothing but stale rejections, the queue is unchanged
  and the event is dropped without an error; and an unconfirmed empty snapshot
  of a scope changes neither the sinks nor the queue.\<close>

theorem stale_full_never_queued:
  "(case first_full now1 e (u_pusher u) of
      None \<Rightarrow> True
    | Some r \<Rightarrow> stale_only (fst r) \<longrightarrow>
        (ev_Revalidate e = None \<or> stale_only (fst (second_full now2 clock (ev_Revalidate e) r))) \<longrightarrow>
        u_store (snd (handle_sync_all now1 now2 clock e u)) = u_store u
        \<and> fst (handle_sync_all now1 now2 clock e u) = None)
   \<and> (ev_Scope e \<noteq> [] \<and> ev_Data e = [] \<and> \<not> ev_EmptyConfirmed e \<longrightarrow>
        handle_sync_all now1 now2 clock e u = (None, u))"
  by (auto simp: handle_sync_all_def finish_full_def stale_only_def Let_def
      split: option.splits prod.splits)

text \<open>An event of a scope with one instance, without revalidation.\<close>

definition sample_event :: Event where
  "sample_event = \<lparr>ev_Trigger = 9, ev_Data = [Some (1, sample_a)], ev_Operate = OperateTypeSyncAll,
     ev_Revalidate = None, ev_Scope = ''k8s'', ev_BatchID = ''b'', ev_Sequence = 1, ev_Identity = [],
     ev_Revision = 0, ev_EmptyConfirmed = False\<rparr>"

definition sample_service :: "sink_call list UnsyncedService" where
  "sample_service = \<lparr>u_pusher = PlainPusher (trace_sink (\<lambda>_ _. Some errStaleFullPush)) [], u_store = []\<rparr>"

theorem stale_full_never_queued_witness:
  "u_store (snd (handle_sync_all (\<lambda>_. 0) (\<lambda>_. 1) 10 sample_event sample_service)) = []
   \<and> fst (handle_sync_all (\<lambda>_. 0) (\<lambda>_. 1) 10 sample_event sample_service) = None"
proof -
  have "first_full (\<lambda>_. 0) sample_event (u_pusher sample_service)
      = Some (Some errStaleFullPush, PlainPusher (trace_sink (\<lambda>_ _. Some errStaleFullPush))
          [CallPushAllOperation (event_operation sample_event)], ev_insts sample_event)"
    by (simp add: first_full_def sample_service_def trace_sink_def)
  with stale_full_never_queued [where ?now1.0 = "\<lambda>_. 0" and e = sample_event and u = sample_service
      and ?now2.0 = "\<lambda>_. 1" and clock = 10] show ?thesis
    by (simp add: stale_only_def hasNonStaleFanoutFailure_def errStaleFullPush_def sample_event_def
        sample_service_def)
qed

theorem Handle_total_witness:
  "\<exists>u'. Handle (InitEventHandlers (\<lambda>_. 0) (\<lambda>_. 1) 10) (Some sample_event) sample_service = Some u'
     \<and> retry_wf (u_store u')"
proof -
  have "retry_wf (u_store sample_service)" by (simp add: sample_service_def retry_wf_def)
  from Handle_total [OF this] show ?thesis .
qed

section \<open>Incremental events\<close>

definition push_failed :: "Event \<Rightarrow> 's NamedSink \<Rightarrow> bool" where
  "push_failed e n = (case fst (os_Push (ns_ops n) (ev_Trigger e) (ev_insts e) (ns_state n)) of
     None \<Rightarrow> False | Some x \<Rightarrow> \<not> errors_Is x errStaleFullPush)"

text \<open>C17: When the fan-out push of an incremental event fails, each instance is
  queued for exactly the sinks that failed: every non-nil instance has an entry
  at its revision or a newer one for each sink whose push failed with something
  other than a stale rejection, and the entries of every sink that succeeded
  are untouched.\<close>

theorem handle_sync_queues_failed_sinks:
  assumes "fanout_wf f" and "retry_wf (u_store u)" and "u_pusher u = FanoutPusher f"
    and "\<exists>n \<in> set (f_sinks f). push_failed e n" and "handle_sync e u = Some (err, u')"
  shows "(\<forall>n \<in> set (f_sinks f). \<forall>a i. push_failed e n \<and> Some (a, i) \<in> set (ev_Data e) \<longrightarrow>
           (\<exists>p. map_of (u_store u') (add_key i (ns_Name n)) = Some p \<and> Reversion i \<le> rank p))
    \<and> (\<forall>k. (\<forall>n \<in> set (f_sinks f). push_failed e n \<longrightarrow> rk_Sink k \<noteq> ns_Name n) \<longrightarrow>
           map_of (u_store u') k = map_of (u_store u) k)"
proof -
  let ?names = "map ns_Name (filter (push_failed e) (f_sinks f))"
  obtain perr f' where push: "f_Push (ev_Trigger e) (ev_insts e) f = (perr, f')" by fastforce
  from f_Push_isolates [OF push assms(1)] have names: "failedSinkNames perr (Sinks f) = ?names"
    unfolding push_failed_def [abs_def] by simp
  have ne: "?names \<noteq> []" using assms(4) by (simp add: filter_empty_conv)
  with names obtain x where x: "perr = Some x" by (cases perr) (auto simp: failedSinkNames_def)
  have "Sinks f' = Sinks f" 
    using push Sinks_fan_out [of "\<lambda>i n. os_Push (ns_ops n) (ev_Trigger e) (ev_insts e) (ns_state n)" f]
    by (simp add: f_Push_def)
  with x names have q: "queuedSinks (FanoutPusher f') x = ?names"
    by (simp add: queuedSinks_def sinkNames_def)
  show ?thesis
  proof (cases "ev_Data e = []")
    case True
    then show ?thesis using assms(3,5) push x by (auto simp: handle_sync_def p_Push_def)
  next
    case False
    have "handle_sync e u = (case Add (ev_Trigger e) (ev_Data e) ?names (FanoutPusher f') (u_store u) of
        None \<Rightarrow> None | Some st \<Rightarrow> Some (Some x, u\<lparr>u_pusher := FanoutPusher f', u_store := st\<rparr>))"
      using False by (simp add: handle_sync_def p_Push_def Let_def assms(3) push x q)
    with assms(5) have add: "Add (ev_Trigger e) (ev_Data e) ?names (FanoutPusher f') (u_store u) = Some (u_store u')"
      by (simp split: option.splits) auto
    have "targets_of ?names (FanoutPusher f') = ?names" using ne by (simp add: targets_of_def)
    with Add_grows [OF assms(2), of "ev_Trigger e" "ev_Data e" ?names "FanoutPusher f'"]
    obtain st where st: "Add (ev_Trigger e) (ev_Data e) ?names (FanoutPusher f') (u_store u) = Some st"
      and grow: "grows (\<lambda>k. \<exists>a i s. Some (a, i) \<in> set (ev_Data e) \<and> s \<in> set ?names \<and> k = add_key i s) (u_store u) st"
      and q2: "\<forall>a i s. Some (a, i) \<in> set (ev_Data e) \<and> s \<in> set ?names \<longrightarrow>
         (\<exists>p. map_of st (add_key i s) = Some p \<and> Reversion i \<le> rank p)" by auto
    have eq: "u_store u' = st" using add st by simp
    have "map_of (u_store u') k = map_of (u_store u) k"
      if "\<forall>n \<in> set (f_sinks f). push_failed e n \<longrightarrow> rk_Sink k \<noteq> ns_Name n" for k
    proof -
      have "\<not> (\<exists>a i s. Some (a, i) \<in> set (ev_Data e) \<and> s \<in> set ?names \<and> k = add_key i s)" using that by auto
      with grow show ?thesis unfolding eq grows_def by blast
    qed
    moreover have "ns_Name n \<in> set ?names" if "n \<in> set (f_sinks f)" "push_failed e n" for n
      using that by simp
    ultimately show ?thesis using q2 unfolding eq by blast
  qed
qed

theorem handle_sync_queues_failed_sinks_witness:
  "\<exists>err u'. handle_sync sample_event \<lparr>u_pusher = FanoutPusher sample_fanout, u_store = []\<rparr> = Some (err, u')
     \<and> (\<exists>p. map_of (u_store u') (add_key sample_a ''nacos'') = Some p \<and> Reversion sample_a \<le> rank p)
     \<and> map_of (u_store u') (add_key sample_a ''atlas'') = None"
proof -
  let ?u = "\<lparr>u_pusher = FanoutPusher sample_fanout, u_store = []\<rparr>"
  have wf: "fanout_wf sample_fanout" "retry_wf (u_store ?u)" "u_pusher ?u = FanoutPusher sample_fanout"
    by (simp_all add: fanout_wf_def sample_fanout_def Sinks_def totalSinkName_def retry_wf_def)
  obtain err u' where h: "handle_sync sample_event ?u = Some (err, u')"
    using handle_sync_ok [OF wf(2)] by blast
  let ?n = "\<lambda>i. f_sinks sample_fanout ! i"
  have s: "set (f_sinks sample_fanout) = {?n 0, ?n 1}" by (simp add: sample_fanout_def)
  have f: "push_failed sample_event (?n 1)" "\<not> push_failed sample_event (?n 0)"
    by (simp_all add: push_failed_def sample_fanout_def sample_event_def sample_simps recordingSink_def
        new_orderedSink_def)
  have n: "ns_Name (?n 1) = ''nacos''" "ns_Name (?n 0) = ''atlas''" by (simp_all add: sample_fanout_def)
  from f(1) have ex: "\<exists>n \<in> set (f_sinks sample_fanout). push_failed sample_event n" unfolding s by blast
  have d: "Some (1, sample_a) \<in> set (ev_Data sample_event)" by (simp add: sample_event_def)
  note q = handle_sync_queues_failed_sinks [OF wf ex h, unfolded s]
  have "\<exists>p. map_of (u_store u') (add_key sample_a ''nacos'') = Some p \<and> Reversion sample_a \<le> rank p"
    using conjunct1 [OF q, THEN bspec [of _ _ "?n 1"], THEN spec [of _ 1], THEN spec [of _ sample_a]] f(1) d n(1)
    by simp
  moreover have "map_of (u_store u') (add_key sample_a ''atlas'') = None"
    using q f(2) n by (auto simp: add_key_def)
  ultimately show ?thesis using h by blast
qed

end
