(* ===== verification/K8s_Robot.thy ===== *)
theory K8s_Robot
  imports Instance_Model
begin

text \<open>
  The multi-cluster watcher of src/pkg/k8srobot/k8srobot.go: the pod objects its
  informers store, the keyed coalescing queue between the informer callbacks
  and the single consumer, and the robot's operations over its clusters.

  The map and the FIFO of the queue share their entries by pointer; here the
  FIFO holds the keys and the map the events.  An instant is an \<^typ>\<open>int\<close>, the
  token in the one-place channel \<open>notify\<close> a \<^typ>\<open>bool\<close>.  An informer (client-go) is a
  parameter, given by what its store returns.
\<close>

section \<open>Pods\<close>

text \<open>The fields of \<open>v1.Pod\<close> that the repository reads.  A quantity is given by the
  results of its methods \<open>AsInt64\<close> and \<open>String\<close>; a zero deletion time is \<^term>\<open>0\<close>.\<close>

record quantity =
  q_AsInt64 :: "int option"
  q_String :: string

record container_port =
  cp_Name :: string
  cp_Protocol :: string
  cp_ContainerPort :: int32

record container =
  c_Name :: string
  c_Image :: string
  c_Env :: "(string \<times> string) list"
  c_Ports :: "container_port list"
  c_CpuLimit :: quantity
  c_MemoryLimit :: quantity

record container_status =
  cs_Ready :: bool
  cs_Running :: bool
  cs_Waiting :: "string option"
  cs_LastTerminated :: "string option"

record pod =
  p_Name :: string
  p_Namespace :: string
  p_UID :: string
  p_Labels :: gomap
  p_ResourceVersion :: string
  p_DeletionTimestamp :: "int option"
  p_Containers :: "container list"
  p_ContainerStatuses :: "container_status list"
  p_Phase :: string
  p_Reason :: string
  p_PodIP :: string

text \<open>What an informer hands out: a pod pointer, a tombstone that wraps the last
  known object, or an object of another type.\<close>

datatype k8s_obj = PodObj "pod option" | FinalStateUnknown k8s_obj | OtherObj

definition Pods :: string where "Pods = ''pods''"

definition EventAdd :: string where "EventAdd = ''add''"
definition EventUpdate :: string where "EventUpdate = ''update''"
definition EventDelete :: string where "EventDelete = ''delete''"

record RN =
  rn_Resource :: string
  rn_Namespace :: string

record Cluster =
  cl_ClusterID :: string
  cl_ConfigPath :: string
  cl_Resources :: "RN list"

record QueueObject =
  qo_RType :: string
  qo_Key :: string
  qo_ClusterID :: string
  qo_UID :: string
  qo_Event :: string
  qo_CreateAt :: int

definition zero_QueueObject :: QueueObject where
  "zero_QueueObject = \<lparr>qo_RType = [], qo_Key = [], qo_ClusterID = [], qo_UID = [], qo_Event = [], qo_CreateAt = 0\<rparr>"

definition NUL :: char where "NUL = char_of (0 :: nat)"

definition identityKey :: "QueueObject \<Rightarrow> string" where
  "identityKey obj =
    (if qo_ClusterID obj = [] \<and> qo_UID obj = [] then qo_Key obj
     else qo_ClusterID obj @ NUL # qo_Key obj @ NUL # qo_UID obj)"

section \<open>File paths\<close>

text \<open>\<open>filepath.Clean\<close> on Unix: the elements of the path, with \<open>.\<close> and empty ones
  dropped and \<open>..\<close> resolved against the elements before it.\<close>

fun split_on :: "char \<Rightarrow> string \<Rightarrow> string \<Rightarrow> string list" where
  "split_on sep acc [] = [acc]"
| "split_on sep acc (c # cs) = (if c = sep then acc # split_on sep [] cs else split_on sep (acc @ [c]) cs)"

definition clean_elem :: "bool \<Rightarrow> string \<Rightarrow> string list \<Rightarrow> string list" where
  "clean_elem rooted e out =
    (if e = [] \<or> e = ''.'' then out
     else if e = ''..'' then
       if out \<noteq> [] \<and> last out \<noteq> ''..'' then butlast out
       else if rooted then out else out @ [e]
     else out @ [e])"

definition filepath_Clean :: "string \<Rightarrow> string" where
  "filepath_Clean path =
    (let rooted = has_prefix path ''/'';
         out = fold (clean_elem rooted) (split_on (CHR ''/'') [] path) []
     in if rooted then CHR ''/'' # join ''/'' out
        else if out = [] then ''.'' else join ''/'' out)"

text \<open>\<open>filepath.Abs\<close>; the working directory, which may be unavailable, is a
  parameter.\<close>

definition filepath_Abs :: "string option \<Rightarrow> string \<Rightarrow> string option" where
  "filepath_Abs cwd path =
    (if has_prefix path ''/'' then Some (filepath_Clean path)
     else case cwd of None \<Rightarrow> None
      | Some wd \<Rightarrow> Some (filepath_Clean (if path = [] then wd else if wd = [] then path else wd @ ''/'' @ path)))"

definition clusterIdentity :: "string option \<Rightarrow> Cluster \<Rightarrow> string" where
  "clusterIdentity cwd c =
    (if cl_ClusterID c \<noteq> [] then cl_ClusterID c
     else let path = (case filepath_Abs cwd (cl_ConfigPath c) of
                Some p \<Rightarrow> p
              | None \<Rightarrow> filepath_Clean (cl_ConfigPath c))
          in ''config-'' @ hex_encode (take 8 (sum256 path)))"

section \<open>The coalescing queue\<close>

record coalescingQueue =
  cq_notify :: bool
  cq_items :: "(string \<times> QueueObject) list"
  cq_order :: "string list"
  cq_recovering :: "QueueObject list"
  cq_capacity :: nat

definition newCoalescingQueue :: "nat \<Rightarrow> coalescingQueue" where
  "newCoalescingQueue capacity =
     \<lparr>cq_notify = False, cq_items = [], cq_order = [], cq_recovering = [], cq_capacity = capacity\<rparr>"

definition cq_insert :: "QueueObject \<Rightarrow> coalescingQueue \<Rightarrow> coalescingQueue" where
  "cq_insert item q = q\<lparr>cq_order := cq_order q @ [identityKey item],
     cq_items := aupd (identityKey item) item (cq_items q)\<rparr>"

definition supersede :: "QueueObject \<Rightarrow> QueueObject \<Rightarrow> QueueObject" where
  "supersede existing item =
    (if qo_CreateAt existing < qo_CreateAt item then item\<lparr>qo_CreateAt := qo_CreateAt existing\<rparr> else item)"

text \<open>The part of \<open>Offer\<close> under the lock: the queue, whether the item was dropped,
  and whether the consumer is to be woken afterwards.\<close>

definition offer_locked :: "QueueObject \<Rightarrow> coalescingQueue \<Rightarrow> coalescingQueue \<times> bool \<times> bool" where
  "offer_locked item q = (case map_of (cq_items q) (identityKey item) of
      Some existing \<Rightarrow> (q\<lparr>cq_items := aupd (identityKey item) (supersede existing item) (cq_items q)\<rparr>, False, False)
    | None \<Rightarrow>
       if cq_capacity q \<le> length (cq_items q) then
         (if length (cq_recovering q) < cq_capacity q
          then q\<lparr>cq_recovering := cq_recovering q @ [item]\<rparr> else q, True, False)
       else (cq_insert item q, False, True))"

definition Offer :: "QueueObject \<Rightarrow> coalescingQueue \<Rightarrow> coalescingQueue \<times> bool" where
  "Offer item q = (let (q', dropped, wake) = offer_locked item q
     in (if wake then q'\<lparr>cq_notify := True\<rparr> else q', dropped))"

text \<open>The loop of \<open>pop\<close> that re-admits recorded items while there is room.\<close>

fun readmit :: "QueueObject list \<Rightarrow> coalescingQueue \<Rightarrow> coalescingQueue" where
  "readmit [] q = q\<lparr>cq_recovering := []\<rparr>"
| "readmit (item # rest) q =
    (if length (cq_items q) < cq_capacity q then
       if map_of (cq_items q) (identityKey item) \<noteq> None then readmit rest q
       else readmit rest (cq_insert item q)
     else q\<lparr>cq_recovering := item # rest\<rparr>)"

definition cq_pop :: "coalescingQueue \<Rightarrow> (QueueObject \<times> bool) \<times> coalescingQueue" where
  "cq_pop q = (case cq_order q of
      [] \<Rightarrow> ((zero_QueueObject, False), q)
    | key # ks \<Rightarrow>
       let q' = readmit (cq_recovering q) (q\<lparr>cq_order := ks, cq_items := adel key (cq_items q)\<rparr>)
       in ((case map_of (cq_items q) key of Some event \<Rightarrow> event | None \<Rightarrow> zero_QueueObject, True), q'))"

definition Depth :: "coalescingQueue \<Rightarrow> nat" where
  "Depth q = length (cq_items q)"

section \<open>The informer callbacks\<close>

definition queueSize :: nat where "queueSize = 4096"

definition dropLogEvery :: "64 word" where "dropLogEvery = 10000"

text \<open>The process-wide drop observer (installed or not), the clusters it was
  notified of, the drop counter and the number of warnings.\<close>

record drop_state =
  ds_observer :: bool
  ds_notified :: "string list"
  ds_total :: "64 word"
  ds_warnings :: nat

definition SetDropObserver :: "bool \<Rightarrow> drop_state \<Rightarrow> drop_state" where
  "SetDropObserver observer d = d\<lparr>ds_observer := observer\<rparr>"

definition notifyDrop :: "string \<Rightarrow> drop_state \<Rightarrow> drop_state" where
  "notifyDrop cluster d = (if ds_observer d then d\<lparr>ds_notified := ds_notified d @ [cluster]\<rparr> else d)"

definition dropWarningRate :: "drop_state \<Rightarrow> bool \<times> drop_state" where
  "dropWarningRate d = (let n = ds_total d + 1 in (n = 1 \<or> n mod dropLogEvery = 0, d\<lparr>ds_total := n\<rparr>))"

definition pod_key :: "pod \<Rightarrow> string" where
  "pod_key p = p_Namespace p @ ''/'' @ p_Name p"

definition enqueue ::
  "string option \<Rightarrow> int \<Rightarrow> Cluster \<Rightarrow> string \<Rightarrow> k8s_obj \<Rightarrow> coalescingQueue \<times> drop_state
    \<Rightarrow> coalescingQueue \<times> drop_state" where
  "enqueue cwd now cluster event obj st = (case (obj, st) of
      (PodObj (Some p), q, d) \<Rightarrow>
        (let item = \<lparr>qo_RType = Pods, qo_Key = pod_key p,
               qo_ClusterID = (if cl_ClusterID cluster \<noteq> [] then cl_ClusterID cluster
                               else clusterIdentity cwd cluster),
               qo_UID = p_UID p, qo_Event = event, qo_CreateAt = now\<rparr>;
             (q', dropped) = Offer item q
         in if dropped then
              (let d1 = notifyDrop (cl_ConfigPath cluster) d;
                   (warn, d2) = dropWarningRate d1
               in (q', if warn then d2\<lparr>ds_warnings := ds_warnings d2 + 1\<rparr> else d2))
            else (q', d))
    | _ \<Rightarrow> st)"

text \<open>The three handlers registered with the informer.\<close>

definition AddFunc ::
  "string option \<Rightarrow> int \<Rightarrow> Cluster \<Rightarrow> k8s_obj \<Rightarrow> coalescingQueue \<times> drop_state \<Rightarrow> coalescingQueue \<times> drop_state" where
  "AddFunc cwd now cluster obj = enqueue cwd now cluster EventAdd obj"

definition UpdateFunc ::
  "string option \<Rightarrow> int \<Rightarrow> Cluster \<Rightarrow> k8s_obj \<Rightarrow> k8s_obj \<Rightarrow> coalescingQueue \<times> drop_state
    \<Rightarrow> coalescingQueue \<times> drop_state" where
  "UpdateFunc cwd now cluster old_obj new_obj = enqueue cwd now cluster EventUpdate new_obj"

definition DeleteFunc ::
  "string option \<Rightarrow> int \<Rightarrow> Cluster \<Rightarrow> k8s_obj \<Rightarrow> coalescingQueue \<times> drop_state \<Rightarrow> coalescingQueue \<times> drop_state" where
  "DeleteFunc cwd now cluster obj =
     enqueue cwd now cluster EventDelete (case obj of FinalStateUnknown d \<Rightarrow> d | _ \<Rightarrow> obj)"

section \<open>The robot\<close>

text \<open>An informer as its store answers: synced or not, the object under a key (an
  error, or absent, or present), and all objects.\<close>

record informer =
  inf_HasSynced :: bool
  inf_GetByKey :: "string \<Rightarrow> k8s_obj option result"
  inf_List :: "k8s_obj list"

record clusterWatcher =
  cw_cluster :: Cluster
  cw_informer :: informer

record robot =
  rb_clusters :: "clusterWatcher list"
  rb_queue :: coalescingQueue
  rb_stopped :: bool

text \<open>\<open>NewRobot\<close> with the configuration and client constructors as the parameters
  \<open>stat\<close> (\<open>os.Stat\<close>) and \<open>build\<close> (the rest config, the clientset and the pod
  informer).\<close>

definition newClusterWatcher ::
  "(string \<Rightarrow> error) \<Rightarrow> (string \<Rightarrow> informer result) \<Rightarrow> Cluster \<Rightarrow> clusterWatcher result" where
  "newClusterWatcher stat build c =
    (if cl_ConfigPath c = [] then Inl (ErrNew ''k8srobot: empty kubeconfig path'')
     else case stat (cl_ConfigPath c) of
       Some err \<Rightarrow> Inl (ErrWrap ''k8srobot: kubeconfig is not readable'' err)
     | None \<Rightarrow> (case build (cl_ConfigPath c) of
         Inl err \<Rightarrow> Inl (ErrWrap ''k8srobot: build client failed'' err)
       | Inr i \<Rightarrow> Inr \<lparr>cw_cluster = c, cw_informer = i\<rparr>))"

fun new_watchers ::
  "(string \<Rightarrow> error) \<Rightarrow> (string \<Rightarrow> informer result) \<Rightarrow> Cluster list \<Rightarrow> clusterWatcher list result" where
  "new_watchers stat build [] = Inr []"
| "new_watchers stat build (c # cs) = (case newClusterWatcher stat build c of
      Inl err \<Rightarrow> Inl err
    | Inr w \<Rightarrow> (case new_watchers stat build cs of Inl err \<Rightarrow> Inl err | Inr ws \<Rightarrow> Inr (w # ws)))"

definition NewRobot :: "(string \<Rightarrow> error) \<Rightarrow> (string \<Rightarrow> informer result) \<Rightarrow> Cluster list \<Rightarrow> robot result" where
  "NewRobot stat build clusters =
    (if clusters = [] then Inl (ErrNew ''k8srobot: no cluster configured'')
     else case new_watchers stat build clusters of
       Inl err \<Rightarrow> Inl err
     | Inr ws \<Rightarrow> Inr \<lparr>rb_clusters = ws, rb_queue = newCoalescingQueue queueSize, rb_stopped = False\<rparr>)"

definition rb_Stop :: "robot \<Rightarrow> robot" where
  "rb_Stop r = (if rb_stopped r then r else r\<lparr>rb_stopped := True\<rparr>)"

definition HasSynced :: "robot \<Rightarrow> bool" where
  "HasSynced r = list_all (\<lambda>w. inf_HasSynced (cw_informer w)) (rb_clusters r)"

definition QueueDepth :: "robot \<Rightarrow> nat" where
  "QueueDepth r = Depth (rb_queue r)"

definition stored :: "clusterWatcher \<Rightarrow> string \<Rightarrow> k8s_obj option" where
  "stored w key = (case inf_GetByKey (cw_informer w) key of Inr (Some obj) \<Rightarrow> Some obj | _ \<Rightarrow> None)"

definition GetByKey :: "string \<Rightarrow> string \<Rightarrow> robot \<Rightarrow> k8s_obj list \<times> bool" where
  "GetByKey resource key r =
    (if resource \<noteq> Pods then ([], False)
     else let items = List.map_filter (\<lambda>w. stored w key) (rb_clusters r)
          in if items = [] then ([], False) else (items, True))"

fun get_cluster_key :: "string option \<Rightarrow> string \<Rightarrow> string \<Rightarrow> clusterWatcher list \<Rightarrow> k8s_obj list \<times> bool" where
  "get_cluster_key cwd clusterID key [] = ([], False)"
| "get_cluster_key cwd clusterID key (w # ws) =
    (let i = (if cl_ClusterID (cw_cluster w) = [] then clusterIdentity cwd (cw_cluster w)
              else cl_ClusterID (cw_cluster w))
     in if i \<noteq> clusterID then get_cluster_key cwd clusterID key ws
        else case stored w key of Some obj \<Rightarrow> ([obj], True) | None \<Rightarrow> ([], False))"

definition GetByClusterKey ::
  "string option \<Rightarrow> string \<Rightarrow> string \<Rightarrow> string \<Rightarrow> robot \<Rightarrow> k8s_obj list \<times> bool" where
  "GetByClusterKey cwd resource clusterID key r =
    (if resource \<noteq> Pods then ([], False) else get_cluster_key cwd clusterID key (rb_clusters r))"

record SourceObject =
  so_QueueObject :: QueueObject
  so_Object :: k8s_obj

definition source_object :: "string option \<Rightarrow> clusterWatcher \<Rightarrow> k8s_obj \<Rightarrow> SourceObject option option" where
  "source_object cwd w item = (case item of
      PodObj (Some p) \<Rightarrow> Some (Some \<lparr>so_QueueObject = zero_QueueObject\<lparr>qo_RType := Pods, qo_Key := pod_key p,
          qo_ClusterID := clusterIdentity cwd (cw_cluster w), qo_UID := p_UID p\<rparr>, so_Object = item\<rparr>)
    | PodObj None \<Rightarrow> None
    | _ \<Rightarrow> Some None)"

text \<open>The result \<^term>\<open>None\<close> is the panic on a nil pod pointer, which is not guarded here.\<close>

definition ListSourceObjects :: "string option \<Rightarrow> string \<Rightarrow> robot \<Rightarrow> SourceObject list option" where
  "ListSourceObjects cwd resource r =
    (if resource \<noteq> Pods then Some []
     else let found = concat (map (\<lambda>w. map (source_object cwd w) (inf_List (cw_informer w))) (rb_clusters r))
          in if None \<in> set found then None else Some (drop_none (drop_none found)))"

definition robot_List :: "string \<Rightarrow> robot \<Rightarrow> k8s_obj list" where
  "robot_List resource r =
    (if resource \<noteq> Pods then [] else concat (map (\<lambda>w. inf_List (cw_informer w)) (rb_clusters r)))"

section \<open>The consumer\<close>

text \<open>\<open>Pop\<close> beside the producers.  The consumer is outside \<open>Pop\<close>, at its first
  check, waiting at the \<open>select\<close>, or at the second check after \<open>Stop\<close>; a
  producer signals after it has released the lock, and \<open>pending\<close> counts the
  producers between the two.\<close>

datatype pop_pc = Outside | Checking | Waiting | Draining | Failed

record pop_sys =
  ps_queue :: coalescingQueue
  ps_stopped :: bool
  ps_pc :: pop_pc
  ps_pending :: nat
  ps_delivered :: "QueueObject list"

definition pop_init :: "nat \<Rightarrow> pop_sys" where
  "pop_init capacity = \<lparr>ps_queue = newCoalescingQueue capacity, ps_stopped = False, ps_pc = Outside,
     ps_pending = 0, ps_delivered = []\<rparr>"

text \<open>A check of the queue: the delivered object, or the place the consumer goes
  when there is none.\<close>

definition check_queue :: "pop_pc \<Rightarrow> pop_sys \<Rightarrow> pop_sys" where
  "check_queue otherwise s = (case cq_pop (ps_queue s) of
      ((obj, True), q) \<Rightarrow> s\<lparr>ps_queue := q, ps_pc := Outside, ps_delivered := ps_delivered s @ [obj]\<rparr>
    | ((_, False), q) \<Rightarrow> s\<lparr>ps_queue := q, ps_pc := otherwise\<rparr>)"

inductive pop_step :: "pop_sys \<Rightarrow> pop_sys \<Rightarrow> bool" where
  step_offer: "offer_locked item (ps_queue s) = (q, dropped, wake) \<Longrightarrow>
     pop_step s (s\<lparr>ps_queue := q, ps_pending := ps_pending s + of_bool wake\<rparr>)"
| step_signal: "0 < ps_pending s \<Longrightarrow>
     pop_step s (s\<lparr>ps_queue := (ps_queue s)\<lparr>cq_notify := True\<rparr>, ps_pending := ps_pending s - 1\<rparr>)"
| step_stop: "pop_step s (s\<lparr>ps_stopped := True\<rparr>)"
| step_call: "ps_pc s \<in> {Outside, Failed} \<Longrightarrow> pop_step s (s\<lparr>ps_pc := Checking\<rparr>)"
| step_check: "ps_pc s = Checking \<Longrightarrow> pop_step s (check_queue Waiting s)"
| step_token: "ps_pc s = Waiting \<Longrightarrow> cq_notify (ps_queue s) \<Longrightarrow>
     pop_step s (s\<lparr>ps_queue := (ps_queue s)\<lparr>cq_notify := False\<rparr>, ps_pc := Checking\<rparr>)"
| step_done: "ps_pc s = Waiting \<Longrightarrow> ps_stopped s \<Longrightarrow> pop_step s (s\<lparr>ps_pc := Draining\<rparr>)"
| step_drain: "ps_pc s = Draining \<Longrightarrow> pop_step s (check_queue Failed s)"

section \<open>The queue's invariant\<close>

definition cq_inv :: "coalescingQueue \<Rightarrow> bool" where
  "cq_inv q \<longleftrightarrow> cq_order q = akeys (cq_items q) \<and> awf (cq_items q)
     \<and> (\<forall>(k, e) \<in> set (cq_items q). identityKey e = k)
     \<and> length (cq_items q) \<le> cq_capacity q \<and> length (cq_recovering q) \<le> cq_capacity q
     \<and> (cq_recovering q \<noteq> [] \<longrightarrow> length (cq_items q) = cq_capacity q)"

text \<open>The part that also holds while \<open>pop\<close> re-admits.\<close>

definition cq_core :: "coalescingQueue \<Rightarrow> bool" where
  "cq_core q \<longleftrightarrow> cq_order q = akeys (cq_items q) \<and> awf (cq_items q)
     \<and> (\<forall>(k, e) \<in> set (cq_items q). identityKey e = k) \<and> length (cq_items q) \<le> cq_capacity q"

lemma cq_inv_core: "cq_inv q \<longleftrightarrow> cq_core q \<and> length (cq_recovering q) \<le> cq_capacity q
     \<and> (cq_recovering q \<noteq> [] \<longrightarrow> length (cq_items q) = cq_capacity q)"
  by (auto simp: cq_inv_def cq_core_def)

lemma identityKey_supersede [simp]: "identityKey (supersede e i) = identityKey i"
  by (simp add: supersede_def identityKey_def)

lemma set_aupd: "set (aupd k v m) \<subseteq> insert (k, v) (set m)"
  by (induction k v m rule: aupd.induct) auto

lemma cq_inv_new [inv_intros]: "cq_inv (newCoalescingQueue capacity)"
  by (simp add: cq_inv_def newCoalescingQueue_def)

lemma cq_core_insert:
  assumes "cq_core q" and "identityKey item \<notin> fst ` set (cq_items q)" and "length (cq_items q) < cq_capacity q"
  shows "cq_core (cq_insert item q)"
  using assms by (auto simp: cq_core_def cq_insert_def)

lemma cq_core_replace:
  assumes "cq_core q" and "map_of (cq_items q) (identityKey item) = Some e"
  shows "cq_core (q\<lparr>cq_items := aupd (identityKey item) (supersede e item) (cq_items q)\<rparr>)"
    and "length (aupd (identityKey item) (supersede e item) (cq_items q)) = length (cq_items q)"
proof -
  let ?m = "aupd (identityKey item) (supersede e item) (cq_items q)"
  have mem: "identityKey item \<in> fst ` set (cq_items q)"
    using assms(2) by (metis map_of_None_iff option.distinct(1))
  have "\<forall>(k, e) \<in> set ?m. identityKey e = k"
    using assms(1) set_aupd [of "identityKey item" "supersede e item" "cq_items q"]
    by (fastforce simp: cq_core_def)
  moreover have "map fst ?m = map fst (cq_items q)" using mem by simp
  moreover from this show "length ?m = length (cq_items q)" by (metis length_map)
  ultimately show "cq_core (q\<lparr>cq_items := ?m\<rparr>)" using assms(1) by (simp add: cq_core_def)
qed

lemma cq_inv_offer [inv_intros]:
  assumes "cq_inv q" and "offer_locked item q = (q', dropped, wake)"
  shows "cq_inv q'"
proof (cases "map_of (cq_items q) (identityKey item)")
  case (Some e)
  then have "q' = q\<lparr>cq_items := aupd (identityKey item) (supersede e item) (cq_items q)\<rparr>"
    using assms(2) by (simp add: offer_locked_def)
  then show ?thesis using assms(1) cq_core_replace [OF _ Some] by (simp add: cq_inv_core)
next
  case None
  then have new: "identityKey item \<notin> fst ` set (cq_items q)" by (simp add: map_of_None_iff)
  show ?thesis
  proof (cases "cq_capacity q \<le> length (cq_items q)")
    case True
    with None assms show ?thesis
      by (cases "length (cq_recovering q) < cq_capacity q") (auto simp: cq_inv_core cq_core_def offer_locked_def)
  next
    case False
    then have "q' = cq_insert item q" "cq_recovering q = []"
      using None assms by (auto simp: offer_locked_def cq_inv_core)
    with False new assms(1) cq_core_insert [of q item] show ?thesis
      by (simp add: cq_inv_core) (simp add: cq_insert_def)
  qed
qed

lemma readmit_inv:
  "cq_core q \<Longrightarrow> length rs \<le> cq_capacity q \<Longrightarrow> cq_inv (readmit rs q)"
proof (induction rs q rule: readmit.induct)
  case (1 q)
  then show ?case by (simp add: cq_inv_core cq_core_def)
next
  case (2 item rest q)
  show ?case
  proof (cases "length (cq_items q) < cq_capacity q")
    case room: True
    show ?thesis
    proof (cases "map_of (cq_items q) (identityKey item)")
      case None
      then have "cq_core (cq_insert item q)"
        using room "2.prems"(1) by (intro cq_core_insert) (simp_all add: map_of_None_iff)
      then show ?thesis using "2.IH"(2) room None "2.prems"(2) by (simp add: cq_insert_def)
    next
      case (Some e)
      then show ?thesis using "2.IH"(1) room "2.prems" by simp
    qed
  next
    case False
    then show ?thesis using "2.prems" by (simp add: cq_inv_core cq_core_def)
  qed
qed

lemma cq_pop_parts:
  assumes "cq_inv q" and "cq_order q = key # ks"
  obtains e m where "cq_items q = (key, e) # m" and "ks = map fst m" and "identityKey e = key"
    and "cq_core (q\<lparr>cq_order := ks, cq_items := m\<rparr>)" and "length (cq_recovering q) \<le> cq_capacity q"
    and "cq_pop q = ((e, True), readmit (cq_recovering q) (q\<lparr>cq_order := ks, cq_items := m\<rparr>))"
proof -
  obtain e m where m: "cq_items q = (key, e) # m" "ks = map fst m"
    using assms by (cases "cq_items q") (auto simp: cq_inv_def)
  have "adel key (cq_items q) = m"
    using m assms(1) by (auto simp: cq_inv_def adel_def filter_id_conv image_iff)
  then have "cq_pop q = ((e, True), readmit (cq_recovering q) (q\<lparr>cq_order := ks, cq_items := m\<rparr>))"
    using assms(2) m by (simp add: cq_pop_def Let_def)
  moreover have "identityKey e = key" "length (cq_recovering q) \<le> cq_capacity q"
    "cq_core (q\<lparr>cq_order := ks, cq_items := m\<rparr>)"
    using m assms(1) by (auto simp: cq_inv_def cq_core_def)
  ultimately show thesis using m that by blast
qed

lemma cq_inv_pop [inv_intros]: "cq_inv q \<Longrightarrow> cq_inv (snd (cq_pop q))"
proof (cases "cq_order q")
  case (Cons key ks)
  assume inv: "cq_inv q"
  from cq_pop_parts [OF inv Cons] obtain e m
    where "cq_core (q\<lparr>cq_order := ks, cq_items := m\<rparr>)" "length (cq_recovering q) \<le> cq_capacity q"
      "cq_pop q = ((e, True), readmit (cq_recovering q) (q\<lparr>cq_order := ks, cq_items := m\<rparr>))" .
  then show ?thesis using readmit_inv by simp
qed (simp add: cq_pop_def)


section \<open>Draining\<close>

definition backlog :: "coalescingQueue \<Rightarrow> nat" where
  "backlog q = length (cq_order q) + length (cq_recovering q)"

lemma readmit_backlog: "backlog (readmit rs q) \<le> length (cq_order q) + length rs"
  by (induction rs q rule: readmit.induct) (auto simp: backlog_def cq_insert_def)

lemma cq_pop_backlog: "cq_order q \<noteq> [] \<Longrightarrow> backlog (snd (cq_pop q)) < backlog q"
  using readmit_backlog [of "cq_recovering q" "q\<lparr>cq_order := tl (cq_order q), cq_items := adel (hd (cq_order q)) (cq_items q)\<rparr>"]
  by (cases "cq_order q") (auto simp: cq_pop_def Let_def backlog_def)

text \<open>The events a consumer gets that pops until the queue is empty.\<close>

function drain :: "coalescingQueue \<Rightarrow> QueueObject list" where
  "drain q = (if cq_order q = [] then [] else fst (fst (cq_pop q)) # drain (snd (cq_pop q)))"
  by auto
termination
  by (relation "measure backlog") (simp_all add: cq_pop_backlog)

declare drain.simps [simp del]

lemma drain_Nil [simp]: "cq_order q = [] \<Longrightarrow> drain q = []"
  by (simp add: drain.simps)

text \<open>The keys that wait for delivery: the queued ones and those of the recorded
  drops.\<close>

definition waiting_keys :: "coalescingQueue \<Rightarrow> string set" where
  "waiting_keys q = set (cq_order q) \<union> identityKey ` set (cq_recovering q)"

lemma readmit_keys:
  "cq_core q \<Longrightarrow> waiting_keys (readmit rs q) = set (cq_order q) \<union> identityKey ` set rs"
proof (induction rs q rule: readmit.induct)
  case (1 q)
  then show ?case by (simp add: waiting_keys_def)
next
  case (2 item rest q)
  show ?case
  proof (cases "length (cq_items q) < cq_capacity q")
    case room: True
    show ?thesis
    proof (cases "map_of (cq_items q) (identityKey item)")
      case None
      then have "cq_core (cq_insert item q)"
        using room "2.prems" by (intro cq_core_insert) (simp_all add: map_of_None_iff)
      then show ?thesis using "2.IH"(2) room None by (auto simp: cq_insert_def)
    next
      case (Some e)
      then have "identityKey item \<in> set (cq_order q)"
        using "2.prems" by (metis cq_core_def list.set_map map_of_None_iff option.distinct(1))
      then show ?thesis using "2.IH"(1) room Some "2.prems" by auto
    qed
  qed (simp add: waiting_keys_def)
qed

text \<open>C31: The consumer drains the queue: popping until it is empty takes at most as
  many pops as there are queued keys and recorded drops, and delivers every one
  of their keys, so that an event dropped by a full queue and recorded is
  delivered without another event of its key.\<close>

theorem drain_delivers:
  "cq_inv q \<Longrightarrow> identityKey ` set (drain q) = waiting_keys q \<and> length (drain q) \<le> backlog q"
proof (induction q rule: drain.induct)
  case (1 q)
  show ?case
  proof (cases "cq_order q")
    case Nil
    then have "cq_recovering q = [] \<or> cq_capacity q = 0" using 1(2) by (auto simp: cq_inv_def)
    then have "cq_recovering q = []" using 1(2) by (auto simp: cq_inv_def)
    with Nil show ?thesis by (simp add: waiting_keys_def)
  next
    case (Cons key ks)
    from cq_pop_parts [OF 1(2) Cons] obtain e m where
      e: "identityKey e = key" and core: "cq_core (q\<lparr>cq_order := ks, cq_items := m\<rparr>)"
      and pop: "cq_pop q = ((e, True), readmit (cq_recovering q) (q\<lparr>cq_order := ks, cq_items := m\<rparr>))" .
    have IH: "identityKey ` set (drain (snd (cq_pop q))) = waiting_keys (snd (cq_pop q))
        \<and> length (drain (snd (cq_pop q))) \<le> backlog (snd (cq_pop q))"
      using 1 Cons by (intro "1.IH") (auto intro: inv_intros)
    have "waiting_keys (snd (cq_pop q)) = set ks \<union> identityKey ` set (cq_recovering q)"
      using readmit_keys [OF core] pop by simp
    moreover have "backlog (snd (cq_pop q)) < backlog q" using Cons by (intro cq_pop_backlog) simp
    ultimately show ?thesis using IH Cons e pop drain.simps [of q]
      by (simp add: waiting_keys_def)
  qed
qed


theorem drain_delivers_witness:
  "cq_inv (newCoalescingQueue 3)
   \<and> identityKey ` set (drain (newCoalescingQueue 3)) = waiting_keys (newCoalescingQueue 3)
   \<and> (let q = fst (Offer (zero_QueueObject\<lparr>qo_Key := ''b''\<rparr>)
                (fst (Offer (zero_QueueObject\<lparr>qo_Key := ''a''\<rparr>) (newCoalescingQueue 1))))
      in cq_inv q \<and> cq_recovering q \<noteq> [] \<and> waiting_keys q = {''a'', ''b''}
         \<and> identityKey ` set (drain q) = {''a'', ''b''})"
proof -
  let ?q = "fst (Offer (zero_QueueObject\<lparr>qo_Key := ''b''\<rparr>)
                (fst (Offer (zero_QueueObject\<lparr>qo_Key := ''a''\<rparr>) (newCoalescingQueue 1))))"
  have "?q = \<lparr>cq_notify = True, cq_items = [(''a'', zero_QueueObject\<lparr>qo_Key := ''a''\<rparr>)], cq_order = [''a''],
      cq_recovering = [zero_QueueObject\<lparr>qo_Key := ''b''\<rparr>], cq_capacity = 1\<rparr>"
    by (simp add: Offer_def offer_locked_def newCoalescingQueue_def zero_QueueObject_def identityKey_def cq_insert_def)
  moreover from this have "cq_inv ?q" by (simp add: cq_inv_def zero_QueueObject_def identityKey_def)
  moreover from calculation have "waiting_keys ?q = {''a'', ''b''}"
    by (auto simp: waiting_keys_def zero_QueueObject_def identityKey_def)
  ultimately show ?thesis
    using drain_delivers [of ?q] drain_delivers [OF cq_inv_new [of 3]] cq_inv_new [of 3]
    by (simp add: Let_def)
qed

section \<open>Coalescing\<close>

text \<open>The reference: the keys in the order of their first arrival, each with its
  newest event, dated by its oldest.\<close>

definition first_keys :: "QueueObject list \<Rightarrow> string list" where
  "first_keys xs = rev (remdups (rev (map identityKey xs)))"

definition merged :: "string \<Rightarrow> QueueObject list \<Rightarrow> QueueObject" where
  "merged k xs = (let es = filter (\<lambda>e. identityKey e = k) xs
     in (last es)\<lparr>qo_CreateAt := Min (qo_CreateAt ` set es)\<rparr>)"

definition coalesce :: "QueueObject list \<Rightarrow> QueueObject list" where
  "coalesce xs = map (\<lambda>k. merged k xs) (first_keys xs)"

definition offers :: "QueueObject list \<Rightarrow> coalescingQueue \<Rightarrow> coalescingQueue" where
  "offers xs q = fold (\<lambda>i q. fst (Offer i q)) xs q"

lemma first_keys_snoc:
  "first_keys (xs @ [x]) = (if identityKey x \<in> identityKey ` set xs then first_keys xs else first_keys xs @ [identityKey x])"
  by (auto simp: first_keys_def)

lemma set_first_keys [simp]: "set (first_keys xs) = identityKey ` set xs"
  by (simp add: first_keys_def)

lemma distinct_first_keys [simp]: "distinct (first_keys xs)"
  by (simp add: first_keys_def)

lemma merged_snoc_other: "k \<noteq> identityKey x \<Longrightarrow> merged k (xs @ [x]) = merged k xs"
  by (simp add: merged_def)

lemma merged_snoc_new: "identityKey x \<notin> identityKey ` set xs \<Longrightarrow> merged (identityKey x) (xs @ [x]) = x"
proof -
  assume "identityKey x \<notin> identityKey ` set xs"
  then have "filter (\<lambda>e. identityKey e = identityKey x) xs = []" by (auto simp: filter_empty_conv image_iff)
  then show ?thesis by (simp add: merged_def)
qed

lemma merged_snoc_old:
  assumes "identityKey x \<in> identityKey ` set xs"
  shows "merged (identityKey x) (xs @ [x]) = supersede (merged (identityKey x) xs) x"
proof -
  let ?es = "filter (\<lambda>e. identityKey e = identityKey x) xs"
  have "?es \<noteq> []" using assms by (auto simp: filter_empty_conv image_iff)
  then have "Min (insert (qo_CreateAt x) (qo_CreateAt ` set ?es)) = min (qo_CreateAt x) (Min (qo_CreateAt ` set ?es))"
    by (intro Min_insert) (simp, metis image_is_empty set_empty)
  then show ?thesis by (simp add: merged_def supersede_def Let_def min_def)
qed

lemma aupd_map_keys:
  "distinct ks \<Longrightarrow> k \<in> set ks \<Longrightarrow> aupd k v (map (\<lambda>j. (j, f j)) ks) = map (\<lambda>j. (j, if j = k then v else f j)) ks"
  by (induction ks) auto

lemma map_of_map_keys: "map_of (map (\<lambda>j. (j, f j)) ks) k = (if k \<in> set ks then Some (f k) else None)"
  by (induction ks) auto

lemma offers_new:
  "length (first_keys xs) \<le> capacity \<Longrightarrow>
    cq_items (offers xs (newCoalescingQueue capacity)) = map (\<lambda>k. (k, merged k xs)) (first_keys xs)
  \<and> cq_recovering (offers xs (newCoalescingQueue capacity)) = []
  \<and> cq_capacity (offers xs (newCoalescingQueue capacity)) = capacity"
proof (induction xs rule: rev_induct)
  case Nil
  then show ?case by (simp add: offers_def newCoalescingQueue_def first_keys_def)
next
  case (snoc x xs)
  let ?q = "offers xs (newCoalescingQueue capacity)" and ?k = "identityKey x"
  have step: "offers (xs @ [x]) (newCoalescingQueue capacity) = fst (Offer x ?q)" by (simp add: offers_def)
  show ?case
  proof (cases "?k \<in> identityKey ` set xs")
    case True
    with snoc have q: "cq_items ?q = map (\<lambda>k. (k, merged k xs)) (first_keys xs)" "cq_recovering ?q = []"
      "cq_capacity ?q = capacity" by (simp_all add: first_keys_snoc)
    with True have "map_of (cq_items ?q) ?k = Some (merged ?k xs)" by (simp add: map_of_map_keys)
    then have "fst (Offer x ?q) = ?q\<lparr>cq_items := aupd ?k (supersede (merged ?k xs) x) (cq_items ?q)\<rparr>"
      by (simp add: Offer_def offer_locked_def)
    moreover have "aupd ?k (supersede (merged ?k xs) x) (cq_items ?q) = map (\<lambda>k. (k, merged k (xs @ [x]))) (first_keys xs)"
      using True q by (auto simp: aupd_map_keys merged_snoc_old merged_snoc_other)
    ultimately show ?thesis using True q step by (simp add: first_keys_snoc)
  next
    case False
    with snoc have q: "cq_items ?q = map (\<lambda>k. (k, merged k xs)) (first_keys xs)" "cq_recovering ?q = []"
      "cq_capacity ?q = capacity" and len: "length (first_keys xs) < capacity" by (simp_all add: first_keys_snoc)
    with False have no: "map_of (cq_items ?q) ?k = None" by (simp add: map_of_map_keys)
    have "aupd ?k x (cq_items ?q) = cq_items ?q @ [(?k, x)]"
      using no by (intro akeys_aupd_new) (simp add: map_of_None_iff)
    then have "cq_items (fst (Offer x ?q)) = cq_items ?q @ [(?k, x)]" "cq_recovering (fst (Offer x ?q)) = []"
      "cq_capacity (fst (Offer x ?q)) = capacity"
      using no len q by (simp_all add: Offer_def offer_locked_def cq_insert_def)
    moreover have "map (\<lambda>k. (k, merged k (xs @ [x]))) (first_keys xs) = cq_items ?q"
      using False q by (auto intro!: merged_snoc_other simp: image_iff)
    ultimately show ?thesis using False step by (simp add: first_keys_snoc merged_snoc_new)
  qed
qed

lemma cq_inv_Offer [inv_intros]: "cq_inv q \<Longrightarrow> cq_inv (fst (Offer x q))"
  using cq_inv_offer [of q x "fst (offer_locked x q)" "fst (snd (offer_locked x q))" "snd (snd (offer_locked x q))"]
  by (auto simp: Offer_def split_beta cq_inv_def)

lemma cq_inv_offers [inv_intros]: "cq_inv q \<Longrightarrow> cq_inv (offers xs q)"
  by (induction xs arbitrary: q) (auto simp: offers_def intro: inv_intros)

lemma drain_no_recovery:
  "cq_inv q \<Longrightarrow> cq_recovering q = [] \<Longrightarrow> drain q = map snd (cq_items q)"
proof (induction q rule: drain.induct)
  case (1 q)
  show ?case
  proof (cases "cq_order q")
    case Nil
    then show ?thesis using 1(2) by (simp add: cq_inv_def)
  next
    case (Cons key ks)
    from cq_pop_parts [OF 1(2) Cons] obtain e m where m: "cq_items q = (key, e) # m"
      and pop: "cq_pop q = ((e, True), readmit (cq_recovering q) (q\<lparr>cq_order := ks, cq_items := m\<rparr>))" .
    have "drain (snd (cq_pop q)) = map snd (cq_items (snd (cq_pop q)))"
      using 1(2,3) Cons pop cq_inv_pop [of q] by (intro "1.IH") simp_all
    then show ?thesis using m pop Cons 1(3) drain.simps [of q] by simp
  qed
qed

text \<open>C13: While the distinct keys fit the capacity, the events the consumer gets
  are exactly the coalesced sequence: one event per key, in the order in which
  the keys first arrived, each the newest of its key, dated by the earliest.\<close>

theorem offers_drain_coalesce:
  assumes "length (first_keys xs) \<le> capacity"
  shows "drain (offers xs (newCoalescingQueue capacity)) = coalesce xs"
  using drain_no_recovery [OF cq_inv_offers [OF cq_inv_new]] offers_new [OF assms]
  by (simp add: coalesce_def comp_def)

text \<open>Four events of three pods.\<close>

definition queue_event :: "string \<Rightarrow> string \<Rightarrow> int \<Rightarrow> QueueObject" where
  "queue_event key event t = zero_QueueObject\<lparr>qo_Key := key, qo_Event := event, qo_CreateAt := t\<rparr>"

lemma queue_event_key [simp]: "identityKey (queue_event key event t) = key"
  by (simp add: queue_event_def identityKey_def zero_QueueObject_def)

theorem offers_drain_coalesce_witness:
  "drain (offers [queue_event ''a'' EventAdd 1, queue_event ''b'' EventAdd 2, queue_event ''a'' EventDelete 3]
     (newCoalescingQueue 2)) = [queue_event ''a'' EventDelete 1, queue_event ''b'' EventAdd 2]"
proof -
  have "length (first_keys [queue_event ''a'' EventAdd 1, queue_event ''b'' EventAdd 2, queue_event ''a'' EventDelete 3]) \<le> 2"
    by (simp add: first_keys_def)
  from offers_drain_coalesce [OF this] show ?thesis
    by (simp add: coalesce_def first_keys_def merged_def) (simp add: queue_event_def)
qed



section \<open>No lost wakeup\<close>

definition pop_inv :: "pop_sys \<Rightarrow> bool" where
  "pop_inv s \<longleftrightarrow> cq_inv (ps_queue s)
     \<and> (ps_pc s = Waiting \<and> cq_order (ps_queue s) \<noteq> [] \<longrightarrow> cq_notify (ps_queue s) \<or> 0 < ps_pending s)"

lemma cq_inv_notify [simp]: "cq_inv (q\<lparr>cq_notify := b\<rparr>) = cq_inv q"
  by (simp add: cq_inv_def)

lemma offer_locked_order:
  "offer_locked item q = (q', dropped, wake) \<Longrightarrow> wake \<or> cq_order q' = cq_order q"
  "offer_locked item q = (q', dropped, wake) \<Longrightarrow> cq_notify q' = cq_notify q"
  by (auto simp: offer_locked_def cq_insert_def split: option.splits if_splits)

lemma check_queue_cases:
  assumes "cq_inv (ps_queue s)"
  shows "if cq_order (ps_queue s) = [] then check_queue pc s = s\<lparr>ps_pc := pc\<rparr>
    else check_queue pc s = s\<lparr>ps_queue := snd (cq_pop (ps_queue s)), ps_pc := Outside,
      ps_delivered := ps_delivered s @ [fst (fst (cq_pop (ps_queue s)))]\<rparr>"
proof (cases "cq_order (ps_queue s)")
  case Nil
  then show ?thesis by (simp add: check_queue_def cq_pop_def)
next
  case (Cons key ks)
  from cq_pop_parts [OF assms Cons] obtain e m where
    "cq_pop (ps_queue s) = ((e, True), readmit (cq_recovering (ps_queue s)) (ps_queue s\<lparr>cq_order := ks, cq_items := m\<rparr>))" .
  with Cons show ?thesis by (simp add: check_queue_def)
qed

lemma pop_inv_step: "pop_step s s' \<Longrightarrow> pop_inv s \<Longrightarrow> pop_inv s'"
proof (induction rule: pop_step.induct)
  case (step_offer item s q dropped wake)
  then show ?case using offer_locked_order [OF step_offer(1)] cq_inv_offer [of "ps_queue s"]
    by (auto simp: pop_inv_def)
next
  case (step_check s)
  then show ?case using check_queue_cases [of s Waiting]
    by (auto simp: pop_inv_def intro: inv_intros split: if_splits)
next
  case (step_drain s)
  then show ?case using check_queue_cases [of s Failed]
    by (auto simp: pop_inv_def intro: inv_intros split: if_splits)
qed (auto simp: pop_inv_def)

lemma pop_inv_reachable: "pop_step\<^sup>*\<^sup>* (pop_init capacity) s \<Longrightarrow> pop_inv s"
  by (induction rule: rtranclp_induct)
    (auto simp: pop_inv_def pop_init_def intro: inv_intros dest: pop_inv_step)

lemma pop_from_checking:
  assumes "pop_inv s" and "ps_pc s = Checking" and "cq_order (ps_queue s) \<noteq> []"
  shows "pop_step s (check_queue Waiting s)
    \<and> map identityKey (ps_delivered (check_queue Waiting s)) = map identityKey (ps_delivered s) @ [hd (cq_order (ps_queue s))]"
proof -
  obtain key ks where o: "cq_order (ps_queue s) = key # ks" using assms(3) by (cases "cq_order (ps_queue s)") auto
  have inv: "cq_inv (ps_queue s)" using assms(1) by (simp add: pop_inv_def)
  from cq_pop_parts [OF inv o] obtain e m where "identityKey e = key"
    "cq_pop (ps_queue s) = ((e, True), readmit (cq_recovering (ps_queue s)) (ps_queue s\<lparr>cq_order := ks, cq_items := m\<rparr>))" .
  then show ?thesis using step_check [OF assms(2)] o by (simp add: check_queue_def)
qed

lemma pop_from_token:
  assumes "pop_inv s" and "ps_pc s = Waiting" and "cq_order (ps_queue s) \<noteq> []" and "cq_notify (ps_queue s)"
  shows "\<exists>s'. pop_step\<^sup>*\<^sup>* s s'
    \<and> map identityKey (ps_delivered s') = map identityKey (ps_delivered s) @ [hd (cq_order (ps_queue s))]"
proof -
  let ?t = "s\<lparr>ps_queue := (ps_queue s)\<lparr>cq_notify := False\<rparr>, ps_pc := Checking\<rparr>"
  have st: "pop_step s ?t" using assms by (intro step_token)
  then have "pop_inv ?t" using assms(1) by (rule pop_inv_step)
  from pop_from_checking [OF this] assms(3) have t: "pop_step ?t (check_queue Waiting ?t)"
    and d: "map identityKey (ps_delivered (check_queue Waiting ?t)) = map identityKey (ps_delivered s) @ [hd (cq_order (ps_queue s))]"
    by simp_all
  from st t have "pop_step\<^sup>*\<^sup>* s (check_queue Waiting ?t)" by (meson converse_rtranclp_into_rtranclp rtranclp.rtrancl_refl)
  with d show ?thesis by blast
qed

text \<open>C30: No wakeup is lost: in every state the producers, \<open>Stop\<close> and the consumer
  can reach, a consumer that sleeps in \<open>Pop\<close> while keys are queued has a token
  in the channel or a producer about to send one, and its next steps deliver
  the oldest queued key.\<close>

theorem Pop_no_lost_wakeup:
  assumes "pop_step\<^sup>*\<^sup>* (pop_init capacity) s" and "ps_pc s = Waiting" and "cq_order (ps_queue s) \<noteq> []"
  shows "(cq_notify (ps_queue s) \<or> 0 < ps_pending s)
    \<and> (\<exists>s'. pop_step\<^sup>*\<^sup>* s s'
        \<and> map identityKey (ps_delivered s') = map identityKey (ps_delivered s) @ [hd (cq_order (ps_queue s))])"
proof -
  have inv: "pop_inv s" using assms(1) by (rule pop_inv_reachable)
  then have w: "cq_notify (ps_queue s) \<or> 0 < ps_pending s" using assms by (simp add: pop_inv_def)
  show ?thesis
  proof (cases "cq_notify (ps_queue s)")
    case True
    then show ?thesis using pop_from_token [OF inv assms(2,3)] by simp
  next
    case False
    let ?t = "s\<lparr>ps_queue := (ps_queue s)\<lparr>cq_notify := True\<rparr>, ps_pending := ps_pending s - 1\<rparr>"
    have st: "pop_step s ?t" using w False by (intro step_signal) simp
    then have "pop_inv ?t" using inv by (rule pop_inv_step)
    from pop_from_token [OF this] assms(2,3) obtain s' where "pop_step\<^sup>*\<^sup>* ?t s'"
      "map identityKey (ps_delivered s') = map identityKey (ps_delivered s) @ [hd (cq_order (ps_queue s))]" by auto
    with st w show ?thesis by (meson converse_rtranclp_into_rtranclp)
  qed
qed

theorem Pop_no_lost_wakeup_witness:
  "let s = \<lparr>ps_queue = fst (offer_locked (queue_event ''a'' EventAdd 1) (newCoalescingQueue 2)), ps_stopped = False,
       ps_pc = Waiting, ps_pending = 1, ps_delivered = []\<rparr>
   in pop_step\<^sup>*\<^sup>* (pop_init 2) s
     \<and> (\<exists>s'. pop_step\<^sup>*\<^sup>* s s' \<and> map identityKey (ps_delivered s') = [''a''])"
proof -
  let ?q = "fst (offer_locked (queue_event ''a'' EventAdd 1) (newCoalescingQueue 2))"
  let ?s1 = "(pop_init 2)\<lparr>ps_pc := Checking\<rparr>" and ?s2 = "(pop_init 2)\<lparr>ps_pc := Waiting\<rparr>"
  let ?s = "\<lparr>ps_queue = ?q, ps_stopped = False, ps_pc = Waiting, ps_pending = 1, ps_delivered = []\<rparr>"
  have o: "offer_locked (queue_event ''a'' EventAdd 1) (newCoalescingQueue 2) = (?q, False, True)"
    and a: "cq_order ?q = [''a'']"
    by (simp_all add: offer_locked_def newCoalescingQueue_def cq_insert_def)
  have "pop_step (pop_init 2) ?s1" by (rule step_call) (simp add: pop_init_def)
  moreover have "pop_step ?s1 ?s2"
    using step_check [of ?s1] by (simp add: check_queue_def cq_pop_def pop_init_def newCoalescingQueue_def)
  moreover have "pop_step ?s2 ?s" using step_offer [of "queue_event ''a'' EventAdd 1" ?s2 ?q False True] o
    by (simp add: pop_init_def)
  ultimately have r: "pop_step\<^sup>*\<^sup>* (pop_init 2) ?s"
    by (meson converse_rtranclp_into_rtranclp rtranclp.rtrancl_refl)
  from Pop_no_lost_wakeup [OF r] a r show ?thesis by (simp add: Let_def)
qed

end
