(* ===== verification/Float32.thy ===== *)
theory Float32
  imports Prelude "HOL-Library.Signed_Division"
begin

text \<open>
  The arithmetic of Go's \<open>float32\<close> and the conversions of its numbers from text:
  round to nearest, ties to even, on the bit patterns of IEEE binary32, with
  exact rational arithmetic underneath; \<open>strconv.ParseInt\<close> and \<open>Atoi\<close>; the
  wrapping conversion to \<open>int32\<close>.
\<close>

section \<open>Rounding\<close>

fun nat_bits :: "nat \<Rightarrow> nat" where
  "nat_bits n = (if n = 0 then 0 else Suc (nat_bits (n div 2)))"

declare nat_bits.simps [simp del]

definition round_even :: "nat \<Rightarrow> nat \<Rightarrow> nat" where
  "round_even a b =
    (let q = a div b; r = a mod b
     in if 2 * r < b \<or> 2 * r = b \<and> even q then q else q + 1)"

text \<open>The pattern of the fraction \<open>n / d\<close>: in units of the least positive number,
  shifted so that 24 bits remain; the exponent field is the shift, and a carry
  of the rounded significand moves into it.\<close>

definition f32_pattern :: "nat \<Rightarrow> nat \<Rightarrow> nat" where
  "f32_pattern n d =
    (let u = n * 2 ^ 149;
         s = nat_bits (u div d) - 24
     in min (255 * 2 ^ 23) (s * 2 ^ 23 + round_even u (d * 2 ^ s)))"

definition f32_ratio :: "bool \<Rightarrow> nat \<Rightarrow> nat \<Rightarrow> float32" where
  "f32_ratio negative n d = of_nat ((if negative then 2 ^ 31 else 0) + f32_pattern n d)"

definition f32_neg :: "float32 \<Rightarrow> bool" where
  "f32_neg a = (2 ^ 31 \<le> unat a)"

text \<open>The magnitude of a finite number as a fraction with denominator \<open>2 ^ 150\<close>.\<close>

definition f32_num :: "float32 \<Rightarrow> nat" where
  "f32_num a = (let e = f32_abs a div 2 ^ 23; m = f32_abs a mod 2 ^ 23
     in if e = 0 then 2 * m else (2 ^ 23 + m) * 2 ^ e)"

definition f32_int :: "float32 \<Rightarrow> int" where
  "f32_int a = (if f32_neg a then - int (f32_num a) else int (f32_num a))"

definition f32_of_int :: "int \<Rightarrow> float32" where
  "f32_of_int i = f32_ratio (i < 0) (nat \<bar>i\<bar>) 1"

text \<open>Addition and division of finite numbers, the divisor not zero.\<close>

definition f32_add :: "float32 \<Rightarrow> float32 \<Rightarrow> float32" where
  "f32_add a b = (let s = f32_int a + f32_int b
     in f32_ratio (if s = 0 then f32_neg a \<and> f32_neg b else s < 0) (nat \<bar>s\<bar>) (2 ^ 150))"

definition f32_div :: "float32 \<Rightarrow> float32 \<Rightarrow> float32" where
  "f32_div a b = f32_ratio (f32_neg a \<noteq> f32_neg b) (f32_num a) (f32_num b)"

section \<open>Integers\<close>

definition to_int32 :: "int \<Rightarrow> int32" where
  "to_int32 i = signed_take_bit 31 i"

definition is_digit :: "char \<Rightarrow> bool" where
  "is_digit c = (CHR ''0'' \<le> c \<and> c \<le> CHR ''9'')"

definition digit_val :: "char \<Rightarrow> nat" where
  "digit_val c = of_char c - 48"

definition digits_val :: "string \<Rightarrow> nat" where
  "digits_val s = foldl (\<lambda>n c. 10 * n + digit_val c) 0 s"

text \<open>\<open>ParseInt(s, 10, 64)\<close>: the value with a flag for the error; the value is zero
  on a syntax error and the nearest bound when out of range.\<close>

definition ParseInt64 :: "string \<Rightarrow> int \<times> bool" where
  "ParseInt64 s =
    (let negative = has_prefix s ''-'';
         ds = (if negative \<or> has_prefix s ''+'' then tl s else s)
     in if ds = [] \<or> \<not> list_all is_digit ds then (0, True)
        else let v = (if negative then - int (digits_val ds) else int (digits_val ds))
             in if v < - (2 ^ 63) then (- (2 ^ 63), True)
                else if 2 ^ 63 - 1 < v then (2 ^ 63 - 1, True)
                else (v, False))"

definition Atoi :: "string \<Rightarrow> int \<times> bool" where
  "Atoi s = ParseInt64 s"

text \<open>The leftmost match of the expression \<open>\d+\<close>.\<close>

definition first_digits :: "string \<Rightarrow> string" where
  "first_digits s = takeWhile is_digit (dropWhile (\<lambda>c. \<not> is_digit c) s)"

section \<open>Rounding error\<close>

lemma nat_bits_bounds: "0 < n \<Longrightarrow> 2 ^ (nat_bits n - 1) \<le> n \<and> n < 2 ^ nat_bits n"
proof (induction n rule: nat_bits.induct)
  case (1 n)
  show ?case
  proof (cases "n = 1")
    case False
    with 1 have IH: "2 ^ (nat_bits (n div 2) - 1) \<le> n div 2" "n div 2 < 2 ^ nat_bits (n div 2)"
      and eq: "nat_bits n = Suc (nat_bits (n div 2))" and p: "0 < n div 2"
      by (auto simp: nat_bits.simps [of n])
    have "nat_bits (n div 2) \<noteq> 0" using p by (simp add: nat_bits.simps [of "n div 2"])
    then obtain k where k: "nat_bits (n div 2) = Suc k" using not0_implies_Suc by blast
    have "2 * 2 ^ k \<le> n" using IH(1) k by simp
    moreover have "n < 2 * 2 ^ Suc k" using IH(2) k by (simp add: div_less_iff_less_mult)
    ultimately show ?thesis using eq k by simp
  qed (simp add: nat_bits.simps [of "Suc 0"] nat_bits.simps [of 0])
qed

lemma round_even_error: "0 < b \<Longrightarrow> 2 * \<bar>int (round_even a b * b) - int a\<bar> \<le> int b"
proof -
  assume b: "0 < b"
  have a: "int a = int (a div b) * int b + int (a mod b)" by (metis mult.commute mult_div_mod_eq of_nat_add of_nat_mult)
  have "a mod b < b" using b by simp
  then show ?thesis using a by (auto simp: round_even_def Let_def algebra_simps)
qed

lemma round_even_lower: "k \<le> a div b \<Longrightarrow> k \<le> round_even a b"
  by (auto simp: round_even_def Let_def)

lemma round_even_upper: "a div b < k \<Longrightarrow> round_even a b \<le> k"
  by (auto simp: round_even_def Let_def)

text \<open>The significand of a fraction that is not subnormal has 24 bits.\<close>

lemma f32_shift:
  assumes "0 < d" and "d * 2 ^ 23 \<le> u" and s: "s = nat_bits (u div d) - 24"
  shows "2 ^ 23 \<le> u div (d * 2 ^ s) \<and> u div (d * 2 ^ s) < 2 ^ 24"
proof -
  have ge: "2 ^ 23 \<le> u div d" using assms(1,2) by (simp add: less_eq_div_iff_mult_less_eq mult.commute)
  then have b: "2 ^ (nat_bits (u div d) - 1) \<le> u div d" "u div d < 2 ^ nat_bits (u div d)"
    using nat_bits_bounds [of "u div d"] by simp_all
  have "24 \<le> nat_bits (u div d)"
  proof (rule ccontr)
    assume "\<not> ?thesis"
    then have "(2 :: nat) ^ nat_bits (u div d) \<le> 2 ^ 23" by (intro power_increasing) simp_all
    with ge b(2) show False by linarith
  qed
  then have n: "nat_bits (u div d) = s + 24" using s by simp
  have "u div (d * 2 ^ s) = u div d div 2 ^ s" by (simp add: div_mult2_eq)
  moreover have "2 ^ 23 \<le> u div d div 2 ^ s"
    using b(1) n by (simp add: less_eq_div_iff_mult_less_eq power_add mult.commute)
  moreover have "u div d div 2 ^ s < 2 ^ 24"
    using b(2) n by (simp add: div_less_iff_less_mult power_add mult.commute)
  ultimately show ?thesis by simp
qed

lemma f32_num_pattern:
  assumes "2 ^ 23 \<le> m" "m \<le> 2 ^ 24" "s * 2 ^ 23 + m < 255 * 2 ^ 23" "f32_abs a = s * 2 ^ 23 + m"
  shows "f32_num a = m * 2 ^ (s + 1)"
proof (cases "m = 2 ^ 24")
  case True
  then have "f32_abs a = (s + 2) * 2 ^ 23" using assms(4) by simp
  then have "f32_abs a div 2 ^ 23 = s + 2" "f32_abs a mod 2 ^ 23 = 0" by (simp_all only: nonzero_mult_div_cancel_right mod_mult_self2_is_0) simp
  with True show ?thesis by (simp add: f32_num_def Let_def)
next
  case False
  define r where "r = m - 2 ^ 23"
  have r: "m = 2 ^ 23 + r" "r < 2 ^ 23" using assms(1,2) False by (simp_all add: r_def)
  have "f32_abs a = r + (s + 1) * 2 ^ 23" using assms(4) r(1) by simp
  then have "f32_abs a div 2 ^ 23 = s + 1" "f32_abs a mod 2 ^ 23 = r" using r(2) by (simp_all only: div_mult_self1 mod_mult_self1) simp_all
  with r show ?thesis by (simp add: f32_num_def Let_def)
qed

lemma f32_abs_ratio: "f32_abs (f32_ratio negative n d) = f32_pattern n d"
proof -
  have "f32_pattern n d \<le> 255 * 2 ^ 23" by (simp add: f32_pattern_def Let_def)
  moreover define k where "k = (if negative then 2 ^ 31 else 0) + f32_pattern n d"
  ultimately have "k < 2 ^ 32" "k mod 2 ^ 31 = f32_pattern n d" by (auto split: if_splits)
  then show ?thesis by (simp add: f32_abs_def f32_ratio_def k_def [symmetric] unat_of_nat take_bit_eq_mod)
qed

lemma f32_ratio_num:
  assumes "0 < d" and "d * 2 ^ 23 \<le> n * 2 ^ 149" and "n < d * 2 ^ 127"
    and u: "u = n * 2 ^ 149" and s: "s = nat_bits (u div d) - 24"
  shows "f32_num (f32_ratio negative n d) = round_even u (d * 2 ^ s) * 2 ^ (s + 1)"
    and "2 ^ 23 * (d * 2 ^ s) \<le> u"
proof -
  define m where "m = round_even u (d * 2 ^ s)"
  have q: "2 ^ 23 \<le> u div (d * 2 ^ s)" "u div (d * 2 ^ s) < 2 ^ 24"
    using f32_shift [OF assms(1), of u s] assms(2) u s by simp_all
  have m: "2 ^ 23 \<le> m" "m \<le> 2 ^ 24"
    unfolding m_def by (rule round_even_lower [OF q(1)], rule round_even_upper [OF q(2)])
  have lt: "u div d < 2 ^ 276" using assms(1,3) by (simp add: u div_less_iff_less_mult)
  have "s \<le> 252"
  proof (rule ccontr)
    assume "\<not> ?thesis"
    then have "(2 :: nat) ^ 276 \<le> 2 ^ (nat_bits (u div d) - 1)" unfolding s by (intro power_increasing) simp_all
    moreover have "0 < u div d" using q(1) by (intro gr0I) (simp add: div_mult2_eq)
    ultimately show False using nat_bits_bounds [of "u div d"] lt by linarith
  qed
  then have fin: "s * 2 ^ 23 + m < 255 * 2 ^ 23 \<or> s * 2 ^ 23 + m = 254 * 2 ^ 23" using m by auto
  have "f32_pattern n d = min (255 * 2 ^ 23) (s * 2 ^ 23 + m)"
    by (simp only: f32_pattern_def Let_def u s m_def)
  then have "f32_pattern n d = s * 2 ^ 23 + m" using fin by auto
  then show "f32_num (f32_ratio negative n d) = round_even u (d * 2 ^ s) * 2 ^ (s + 1)"
    using m fin unfolding m_def by (intro f32_num_pattern) (auto simp: f32_abs_ratio)
  show "2 ^ 23 * (d * 2 ^ s) \<le> u" using q(1) assms(1) by (simp add: less_eq_div_iff_mult_less_eq)
qed

text \<open>The magnitude of a rounded fraction differs from it by at most one part in
  \<open>2 ^ 24\<close>, and not at all if the significand holds it.\<close>

lemma f32_ratio_error:
  assumes "0 < d" and "d * 2 ^ 23 \<le> n * 2 ^ 149" and "n < d * 2 ^ 127"
  shows "2 ^ 24 * \<bar>int (f32_num (f32_ratio negative n d)) * int d - int n * 2 ^ 150\<bar> \<le> int n * 2 ^ 150"
proof -
  define u where "u = n * 2 ^ 149"
  define s where "s = nat_bits (u div d) - 24"
  define m where "m = round_even u (d * 2 ^ s)"
  note r = f32_ratio_num(1) [OF assms u_def s_def, of negative] f32_ratio_num(2) [OF assms u_def s_def]
  have e: "2 * \<bar>int (m * (d * 2 ^ s)) - int u\<bar> \<le> int (d * 2 ^ s)"
    unfolding m_def using assms(1) by (intro round_even_error) simp
  have "2 ^ 23 * int (d * 2 ^ s) \<le> int u" using r(2) by (metis of_nat_le_iff of_nat_mult of_nat_numeral of_nat_power)
  moreover have "2 * x \<le> y \<Longrightarrow> 2 ^ 23 * y \<le> z \<Longrightarrow> 2 ^ 24 * x \<le> z" for x y z :: int by simp
  ultimately have k: "2 ^ 24 * \<bar>int (m * (d * 2 ^ s)) - int u\<bar> \<le> int u" using e by blast
  have "int (f32_num (f32_ratio negative n d)) * int d - int n * 2 ^ 150 = 2 * (int (m * (d * 2 ^ s)) - int u)"
    unfolding r(1) m_def [symmetric] by (simp add: u_def algebra_simps)
  then have "\<bar>int (f32_num (f32_ratio negative n d)) * int d - int n * 2 ^ 150\<bar> = 2 * \<bar>int (m * (d * 2 ^ s)) - int u\<bar>"
    by (simp only: abs_mult abs_numeral)
  moreover have "int n * 2 ^ 150 = 2 * int u" by (simp add: u_def)
  ultimately show ?thesis using k by simp
qed

lemma f32_ratio_exact:
  assumes "0 < n" and "n < 2 ^ 24"
  shows "f32_num (f32_ratio negative n 1) = n * 2 ^ 150"
proof -
  define u where "u = n * 2 ^ 149"
  define s where "s = nat_bits (u div 1) - 24"
  have u: "0 < u" "u < 2 ^ 173" using assms by (simp_all add: u_def)
  have "s \<le> 149"
  proof (rule ccontr)
    assume "\<not> ?thesis"
    then have "(2 :: nat) ^ 173 \<le> 2 ^ (nat_bits u - 1)" unfolding s_def by (intro power_increasing) simp_all
    with u nat_bits_bounds [of u] show False by linarith
  qed
  then have "(2 :: nat) ^ s dvd u" unfolding u_def by (intro dvd_mult le_imp_power_dvd)
  then have "round_even u (1 * 2 ^ s) * 2 ^ s = u" by (simp add: round_even_def Let_def mod_eq_0_iff_dvd)
  moreover have "f32_num (f32_ratio negative n 1) = round_even u (1 * 2 ^ s) * 2 ^ (s + 1)"
    using assms by (intro f32_ratio_num(1) [OF _ _ _ u_def s_def]) simp_all
  ultimately have "f32_num (f32_ratio negative n 1) = 2 * u" by simp
  then show ?thesis by (simp add: u_def)
qed

lemma f32_ratio_neg: "f32_neg (f32_ratio negative n d) = negative"
proof -
  have "f32_pattern n d \<le> 255 * 2 ^ 23" by (simp add: f32_pattern_def Let_def)
  moreover define k where "k = (if negative then 2 ^ 31 else 0) + f32_pattern n d"
  ultimately have "k < 2 ^ 32" "2 ^ 31 \<le> k \<longleftrightarrow> negative" by (auto split: if_splits)
  then show ?thesis by (simp add: f32_neg_def f32_ratio_def k_def [symmetric] unat_of_nat take_bit_eq_mod)
qed

text \<open>Integers of up to 24 bits are exact.\<close>

lemma f32_of_int_exact:
  assumes "\<bar>i\<bar> < 2 ^ 24"
  shows "f32_int (f32_of_int i) = i * 2 ^ 150"
proof (cases "i = 0")
  case True
  then show ?thesis
    by (simp add: f32_int_def f32_num_def f32_of_int_def f32_abs_ratio f32_pattern_def round_even_def
        nat_bits.simps [of 0] Let_def)
next
  case False
  then have "f32_num (f32_of_int i) = nat \<bar>i\<bar> * 2 ^ 150"
    unfolding f32_of_int_def using assms by (intro f32_ratio_exact) simp_all
  then have "int (f32_num (f32_of_int i)) = \<bar>i\<bar> * 2 ^ 150" by simp
  moreover have "f32_neg (f32_of_int i) = (i < 0)" by (simp add: f32_of_int_def f32_ratio_neg)
  ultimately show ?thesis by (simp add: f32_int_def)
qed

section \<open>Parsing\<close>

lemma digits_val_snoc [simp]: "digits_val (s @ [c]) = 10 * digits_val s + digit_val c"
  by (simp add: digits_val_def)

lemma nat_digits_parse: "digits_val (nat_digits n) = n \<and> list_all is_digit (nat_digits n) \<and> nat_digits n \<noteq> []"
proof (induction n rule: nat_digits.induct)
  case (1 n)
  have d: "is_digit (char_of (48 + k)) \<and> digit_val (char_of (48 + k)) = k" if "k < 10" for k :: nat
    using that by (auto simp: is_digit_def digit_val_def less_eq_char_def)
  show ?case
  proof (cases "n < 10")
    case True
    then show ?thesis using d [of n] by (simp add: nat_digits.simps [of n] digits_val_def)
  next
    case False
    then show ?thesis using 1 d [of "n mod 10"] by (simp add: nat_digits.simps [of n])
  qed
qed

lemmas nat_digits_simps = nat_digits_parse [THEN conjunct1] nat_digits_parse [THEN conjunct2, THEN conjunct1]
  nat_digits_parse [THEN conjunct2, THEN conjunct2]

lemma nat_digits_no_sign: "nat_digits n = c # s \<Longrightarrow> c \<noteq> CHR ''-'' \<and> c \<noteq> CHR ''+''"
  using nat_digits_simps(2) [of n] by (auto simp: is_digit_def less_eq_char_def)

text \<open>Reading back a printed number.\<close>

lemma ParseInt64_int_digits: "- (2 ^ 63) \<le> i \<Longrightarrow> i < 2 ^ 63 \<Longrightarrow> ParseInt64 (int_digits i) = (i, False)"
proof (cases "i < 0")
  case False
  assume b: "i < 2 ^ 63"
  obtain c s where c: "nat_digits (nat i) = c # s" using nat_digits_simps(3) [of "nat i"] by (cases "nat_digits (nat i)") auto
  then have "\<not> has_prefix (nat_digits (nat i)) ''-''" "\<not> has_prefix (nat_digits (nat i)) ''+''"
    using nat_digits_no_sign [OF c] by simp_all
  then show ?thesis using False b by (simp add: ParseInt64_def int_digits_def nat_digits_simps)
qed (simp add: ParseInt64_def int_digits_def nat_digits_simps)

lemma first_digits_nat: "\<not> is_digit c \<Longrightarrow> first_digits (nat_digits n @ c # s) = nat_digits n"
proof -
  assume c: "\<not> is_digit c"
  have d: "\<And>x. x \<in> set (nat_digits n) \<Longrightarrow> is_digit x" using nat_digits_simps(2) [of n] by (simp add: list_all_iff)
  then have "dropWhile (\<lambda>c. \<not> is_digit c) (nat_digits n @ c # s) = nat_digits n @ c # s"
    using nat_digits_simps(3) [of n] by (cases "nat_digits n") auto
  then show ?thesis using c d by (simp add: first_digits_def takeWhile_append2)
qed

section \<open>Decimal text\<close>

text \<open>The pattern nearest to \<open>m * 10 powi e\<close>.\<close>

definition dec_pattern :: "nat \<Rightarrow> int \<Rightarrow> nat" where
  "dec_pattern m e = (if 0 \<le> e then f32_pattern (m * 10 ^ nat e) 1 else f32_pattern m (10 ^ nat (- e)))"

text \<open>With \<open>p\<close> digits after the point: the nearer of the two neighbours of the number,
  if it reads back as the number, else the other one if that does.\<close>

definition f32_candidate :: "float32 \<Rightarrow> int \<Rightarrow> nat option" where
  "f32_candidate a p =
    (let A = f32_num a * 10 ^ nat p; B = 2 ^ 150 * 10 ^ nat (- p);
         q = A div B; r = A mod B;
         (near, far) = (if 2 * r < B \<or> 2 * r = B \<and> even q then (q, q + 1) else (q + 1, q))
     in if dec_pattern near (- p) = f32_abs a then Some near
        else if dec_pattern far (- p) = f32_abs a then Some far else None)"

text \<open>The shortest decimal that reads back as the number.\<close>

fun first_decimal :: "(int \<Rightarrow> nat option) \<Rightarrow> int list \<Rightarrow> nat \<times> int" where
  "first_decimal f [] = (0, 0)"
| "first_decimal f (p # ps) = (case f p of Some c \<Rightarrow> (c, p) | None \<Rightarrow> first_decimal f ps)"

definition f32_shortest :: "float32 \<Rightarrow> nat \<times> int" where
  "f32_shortest a = first_decimal (f32_candidate a) [- 39 .. 150]"

definition fixed_text :: "nat \<Rightarrow> int \<Rightarrow> string" where
  "fixed_text c p =
    (if p \<le> 0 then nat_digits (c * 10 ^ nat (- p))
     else let ds = nat_digits c;
              ds = replicate (nat p + 1 - length ds) (CHR ''0'') @ ds;
              k = length ds - nat p
          in take k ds @ CHR ''.'' # drop k ds)"

definition exponent_text :: "nat \<Rightarrow> int \<Rightarrow> string" where
  "exponent_text c p =
    (let ds = nat_digits c; x = int (length ds) - 1 - p
     in hd ds # (if tl ds = [] then [] else CHR ''.'' # tl ds)
        @ CHR ''e'' # (if x < 0 then CHR ''-'' else CHR ''+'') # nat_digits (nat \<bar>x\<bar>))"

text \<open>The text of a finite \<open>float32\<close> in JSON: the exponent form below \<open>1e-6\<close> and from
  \<open>1e21\<close> on.\<close>

definition f32_text :: "float32 \<Rightarrow> string" where
  "f32_text a =
    (let (c, p) = f32_shortest a; n = f32_abs a
     in (if f32_neg a then ''-'' else [])
        @ (if n = 0 then ''0''
           else if n < dec_pattern 1 (- 6) \<or> dec_pattern 1 21 \<le> n then exponent_text c p
           else fixed_text c p))"

text \<open>\<open>ParseFloat(s, 32)\<close> on the number syntax of JSON; a value out of range is an
  error.\<close>

definition split_char :: "(char \<Rightarrow> bool) \<Rightarrow> string \<Rightarrow> string \<times> string" where
  "split_char P s = (takeWhile (\<lambda>c. \<not> P c) s, tl (dropWhile (\<lambda>c. \<not> P c) s))"

definition ParseFloat32 :: "string \<Rightarrow> float32 option" where
  "ParseFloat32 s =
    (let negative = has_prefix s ''-'';
         s = (if negative then tl s else s);
         (mant, ex) = split_char (\<lambda>c. c = CHR ''e'' \<or> c = CHR ''E'') s;
         (ip, fp) = split_char (\<lambda>c. c = CHR ''.'') mant;
         x = (if ex = [] then 0 else if hd ex = CHR ''-'' then - int (digits_val (tl ex))
              else if hd ex = CHR ''+'' then int (digits_val (tl ex)) else int (digits_val ex));
         n = dec_pattern (digits_val (ip @ fp)) (x - int (length fp))
     in if n = 255 * 2 ^ 23 then None
        else Some (of_nat ((if negative then 2 ^ 31 else 0) + n)))"

section \<open>Reading back a printed float\<close>

lemma nat_bits_unique:
  assumes "2 ^ b \<le> n" and "n < 2 ^ Suc b"
  shows "nat_bits n = Suc b"
proof -
  have "0 < n" using assms(1) by (intro gr0I) simp
  then have n: "2 ^ (nat_bits n - 1) \<le> n" "n < 2 ^ nat_bits n" using nat_bits_bounds by blast+
  have "(2 :: nat) ^ b < 2 ^ nat_bits n" "(2 :: nat) ^ (nat_bits n - 1) < 2 ^ Suc b" using assms n by linarith+
  from this [THEN power_less_imp_less_exp [rotated]] have "b < nat_bits n" "nat_bits n - 1 < Suc b" by simp_all
  then show ?thesis by simp
qed

lemma round_even_exact: "0 < b \<Longrightarrow> round_even (k * b) b = k"
  by (simp add: round_even_def Let_def)

lemma round_even_scale: "0 < k \<Longrightarrow> round_even (a * k) (b * k) = round_even a b"
  by (simp add: round_even_def Let_def mult_mod_left [symmetric])

lemma f32_pattern_scale:
  assumes "0 < k"
  shows "f32_pattern (n * k) (d * k) = f32_pattern n d"
proof -
  have "n * k * 2 ^ 149 div (d * k) = n * 2 ^ 149 div d"
    using assms by (metis div_mult_mult2 mult.assoc mult.commute neq0_conv)
  moreover have "round_even (n * k * 2 ^ 149) (d * k * 2 ^ s) = round_even (n * 2 ^ 149) (d * 2 ^ s)" for s
    using round_even_scale [OF assms, of "n * 2 ^ 149" "d * 2 ^ s"] by (simp add: ac_simps)
  ultimately show ?thesis by (simp add: f32_pattern_def Let_def)
qed

text \<open>Every finite number is its own rounding.\<close>

lemma f32_pattern_num:
  assumes "f32_finite a"
  shows "f32_pattern (f32_num a) (2 ^ 150) = f32_abs a"
proof -
  define e where "e = f32_abs a div 2 ^ 23"
  define m where "m = f32_abs a mod 2 ^ 23"
  have A: "f32_abs a = e * 2 ^ 23 + m" "m < 2 ^ 23" by (simp_all add: e_def m_def)
  have fin: "f32_abs a < 255 * 2 ^ 23" using assms by (simp only: f32_finite_def)
  show ?thesis
  proof (cases e)
    case 0
    then have u: "f32_num a * 2 ^ 149 = m * 2 ^ 150" by (simp add: f32_num_def e_def m_def Let_def)
    have "nat_bits m \<le> 24"
    proof (rule ccontr)
      assume "\<not> ?thesis"
      then have "(2 :: nat) ^ 23 \<le> 2 ^ (nat_bits m - 1)" by (intro power_increasing) simp_all
      moreover have "0 < m" using \<open>\<not> nat_bits m \<le> 24\<close> by (cases m) (simp_all add: nat_bits.simps [of 0])
      ultimately show False using nat_bits_bounds [of m] A(2) by linarith
    qed
    moreover have "m * 2 ^ 150 div 2 ^ 150 = m" by simp
    ultimately have "f32_pattern (f32_num a) (2 ^ 150) = min (255 * 2 ^ 23) (round_even (m * 2 ^ 150) (2 ^ 150))"
      unfolding f32_pattern_def Let_def u by simp
    then show ?thesis using A 0 fin round_even_exact [of "2 ^ 150" m] by simp
  next
    case (Suc k)
    define M where "M = 2 ^ 23 + m"
    have M: "2 ^ 23 \<le> M" "M < 2 ^ 24" using A(2) by (simp_all add: M_def)
    have "f32_num a = M * 2 ^ e"
      unfolding f32_num_def Let_def e_def [symmetric] m_def [symmetric] M_def [symmetric] using Suc by simp
    then have u: "f32_num a * 2 ^ 149 = M * 2 ^ k * 2 ^ 150" using Suc by (simp add: power_add)
    have "2 ^ (23 + k) \<le> M * 2 ^ k" "M * 2 ^ k < 2 ^ Suc (23 + k)"
      using M by (simp_all add: power_add)
    then have "nat_bits (M * 2 ^ k) = Suc (23 + k)" by (rule nat_bits_unique)
    moreover have "M * 2 ^ k * 2 ^ 150 div 2 ^ 150 = M * 2 ^ k" by simp
    ultimately have "f32_pattern (f32_num a) (2 ^ 150) = min (255 * 2 ^ 23) (k * 2 ^ 23 + round_even (M * 2 ^ k * 2 ^ 150) (2 ^ 150 * 2 ^ k))"
      unfolding f32_pattern_def Let_def u by simp
    moreover have "round_even (M * 2 ^ k * 2 ^ 150) (2 ^ 150 * 2 ^ k) = M"
      using round_even_exact [of "2 ^ 150 * 2 ^ k" M] by (simp add: ac_simps)
    ultimately show ?thesis using A Suc fin by (simp add: M_def)
  qed
qed

lemma f32_candidate_sound: "f32_candidate a p = Some c \<Longrightarrow> dec_pattern c (- p) = f32_abs a"
  by (auto simp: f32_candidate_def Let_def split: if_splits)

lemma f32_candidate_exact:
  assumes "f32_num a * 10 ^ n = k * 2 ^ 150" and "dec_pattern k (- int n) = f32_abs a"
  shows "f32_candidate a (int n) = Some k"
proof -
  define B :: nat where "B = 2 ^ 150"
  have B: "0 < B" by (simp add: B_def)
  have A: "f32_num a * 10 ^ nat (int n) = k * B" using assms(1) by (simp only: nat_int B_def)
  have z: "B * 10 ^ nat (- int n) = B" by simp
  show ?thesis
    unfolding f32_candidate_def Let_def B_def [symmetric] A z using B assms(2) by simp
qed

lemma f32_candidate_150:
  assumes "f32_finite a"
  shows "f32_candidate a 150 \<noteq> None"
proof -
  define n :: nat where "n = 150"
  have ten: "(10 :: nat) ^ n = 2 ^ n * 5 ^ n" by (metis mult_2 numeral_Bit0 numeral_code(2) numeral_times_numeral power_mult_distrib semiring_norm(12,13))
  have "f32_pattern (f32_num a) (2 ^ n) = f32_abs a" unfolding n_def by (rule f32_pattern_num [OF assms])
  then have "f32_pattern (f32_num a * 5 ^ n) (10 ^ n) = f32_abs a"
    unfolding ten using f32_pattern_scale [of "5 ^ n"] by simp
  then have "dec_pattern (f32_num a * 5 ^ n) (- int n) = f32_abs a"
    by (cases "n = 0") (simp_all add: dec_pattern_def)
  moreover have "f32_num a * 10 ^ n = f32_num a * 5 ^ n * 2 ^ n" unfolding ten by (simp add: ac_simps)
  ultimately have "f32_candidate a (int n) \<noteq> None"
    using f32_candidate_exact [of a n "f32_num a * 5 ^ n"] unfolding n_def by blast
  then show ?thesis by (simp add: n_def)
qed

lemma first_decimal_sound:
  "p \<in> set ps \<Longrightarrow> f p \<noteq> None \<Longrightarrow> (case first_decimal f ps of (c, p) \<Rightarrow> f p = Some c)"
  by (induction ps) (auto split: option.splits)

lemma f32_shortest_sound:
  assumes "f32_finite a" and "f32_shortest a = (c, p)"
  shows "dec_pattern c (- p) = f32_abs a"
proof -
  have "150 \<in> set [- 39 .. 150 :: int]" by simp
  from first_decimal_sound [where f = "f32_candidate a", OF this f32_candidate_150 [OF assms(1)]] assms(2)
  have "f32_candidate a p = Some c" by (simp add: f32_shortest_def)
  then show ?thesis by (rule f32_candidate_sound)
qed

lemma split_char_none: "list_all (\<lambda>c. \<not> P c) s \<Longrightarrow> split_char P s = (s, [])"
  by (induction s) (simp_all add: split_char_def)

lemma split_char_at: "list_all (\<lambda>c. \<not> P c) s \<Longrightarrow> P c \<Longrightarrow> split_char P (s @ c # t) = (s, t)"
  by (simp add: split_char_def list_all_iff takeWhile_append2 dropWhile_append2)

lemma digits_no_mark:
  "list_all is_digit s \<Longrightarrow> list_all (\<lambda>c. \<not> (c = CHR ''e'' \<or> c = CHR ''E'')) s"
  "list_all is_digit s \<Longrightarrow> list_all (\<lambda>c. c \<noteq> CHR ''.'') s"
  by (auto simp: list_all_iff is_digit_def less_eq_char_def)

lemma digits_val_zeros [simp]: "digits_val (replicate n (CHR ''0'') @ s) = digits_val s"
  by (induction n) (simp_all add: digits_val_def digit_val_def)

text \<open>A decimal text: digits, perhaps a point and digits, perhaps an exponent.\<close>

definition dec_value :: "string \<Rightarrow> nat \<times> int" where
  "dec_value s =
    (let (mant, ex) = split_char (\<lambda>c. c = CHR ''e'' \<or> c = CHR ''E'') s;
         (ip, fp) = split_char (\<lambda>c. c = CHR ''.'') mant;
         x = (if ex = [] then 0 else if hd ex = CHR ''-'' then - int (digits_val (tl ex))
              else if hd ex = CHR ''+'' then int (digits_val (tl ex)) else int (digits_val ex))
     in (digits_val (ip @ fp), x - int (length fp)))"

lemma ParseFloat32_dec:
  "ParseFloat32 s =
    (let negative = has_prefix s ''-'';
         (m, e) = dec_value (if negative then tl s else s);
         n = dec_pattern m e
     in if n = 255 * 2 ^ 23 then None else Some (of_nat ((if negative then 2 ^ 31 else 0) + n)))"
  by (simp add: ParseFloat32_def dec_value_def Let_def split_beta)

lemma dec_value_digits: "dec_value (nat_digits n) = (n, 0)"
  using digits_no_mark [OF nat_digits_simps(2) [of n]]
  by (simp add: dec_value_def split_char_none nat_digits_simps)

lemma dec_value_fixed: "(case dec_value (fixed_text c p) of (m, e) \<Rightarrow> dec_pattern m e = dec_pattern c (- p))"
proof (cases "p \<le> 0")
  case True
  then show ?thesis by (simp add: fixed_text_def dec_value_digits dec_pattern_def)
next
  case False
  define ds where "ds = replicate (nat p + 1 - length (nat_digits c)) (CHR ''0'') @ nat_digits c"
  define k where "k = length ds - nat p"
  have len: "nat p < length ds" by (simp add: ds_def)
  have dig: "list_all is_digit ds" using nat_digits_simps(2) [of c]
    by (auto simp: ds_def list_all_iff is_digit_def less_eq_char_def)
  then have d: "list_all is_digit (take k ds)" "list_all is_digit (drop k ds)"
    by (auto simp: list_all_iff dest: in_set_takeD in_set_dropD)
  have t: "fixed_text c p = take k ds @ CHR ''.'' # drop k ds"
    unfolding fixed_text_def Let_def ds_def [symmetric] k_def [symmetric] using False by simp
  have "list_all (\<lambda>c. \<not> (c = CHR ''e'' \<or> c = CHR ''E'')) (fixed_text c p)"
    unfolding t using digits_no_mark(1) [OF d(1)] digits_no_mark(1) [OF d(2)] by simp
  moreover have "split_char (\<lambda>c. c = CHR ''.'') (fixed_text c p) = (take k ds, drop k ds)"
    unfolding t using digits_no_mark(2) [OF d(1)] by (intro split_char_at) simp_all
  ultimately have "dec_value (fixed_text c p) = (digits_val ds, - int (length (drop k ds)))"
    by (simp add: dec_value_def split_char_none)
  moreover have "digits_val ds = c" by (simp add: ds_def nat_digits_simps)
  moreover have "int (length (drop k ds)) = p" using len False by (simp add: k_def)
  ultimately show ?thesis by simp
qed

lemma dec_value_exponent: "dec_value (exponent_text c p) = (c, - p)"
proof -
  define ds where "ds = nat_digits c"
  define x where "x = int (length ds) - 1 - p"
  obtain d dt where ds: "ds = d # dt" using nat_digits_simps(3) [of c] by (cases ds) (auto simp: ds_def)
  define mant where "mant = d # (if dt = [] then [] else CHR ''.'' # dt)"
  have dig: "is_digit d" "list_all is_digit dt" using nat_digits_simps(2) [of c] ds by (simp_all add: ds_def)
  have t: "exponent_text c p = mant @ CHR ''e'' # (if x < 0 then CHR ''-'' else CHR ''+'') # nat_digits (nat \<bar>x\<bar>)"
    using ds by (simp add: exponent_text_def Let_def ds_def [symmetric] x_def mant_def)
  have nd: "list_all (\<lambda>c. \<not> (c = CHR ''e'' \<or> c = CHR ''E'')) [d]" "list_all (\<lambda>c. c \<noteq> CHR ''.'') [d]"
    using digits_no_mark [of "[d]"] dig(1) by simp_all
  have "list_all (\<lambda>c. \<not> (c = CHR ''e'' \<or> c = CHR ''E'')) mant"
    using nd digits_no_mark(1) [OF dig(2)] by (simp add: mant_def)
  then have s1: "split_char (\<lambda>c. c = CHR ''e'' \<or> c = CHR ''E'') (exponent_text c p)
      = (mant, (if x < 0 then CHR ''-'' else CHR ''+'') # nat_digits (nat \<bar>x\<bar>))"
    unfolding t by (intro split_char_at) simp_all
  have s2: "split_char (\<lambda>c. c = CHR ''.'') mant = ([d], dt)"
    using split_char_at [of "\<lambda>c. c = CHR ''.''" "[d]" "CHR ''.''" dt] split_char_none [of "\<lambda>c. c = CHR ''.''" "[d]"] nd(2)
    by (simp add: mant_def)
  have "digits_val (d # dt) = c" using ds nat_digits_simps(1) [of c] by (simp add: ds_def)
  moreover have "int (length dt) = x + p" using ds by (simp add: x_def)
  ultimately show ?thesis by (auto simp: dec_value_def s1 s2 nat_digits_simps)
qed

lemma text_no_sign:
  "\<not> has_prefix (fixed_text c p) ''-''" "\<not> has_prefix (exponent_text c p) ''-''"
proof -
  have neg: "\<not> is_digit (CHR ''-'')" by (simp add: is_digit_def less_eq_char_def)
  have h: "hd (nat_digits n) \<noteq> CHR ''-''" for n
    using nat_digits_simps(2,3) [of n] neg by (cases "nat_digits n") auto
  define ds where "ds = replicate (nat p + 1 - length (nat_digits c)) (CHR ''0'') @ nat_digits c"
  have "hd ds \<noteq> CHR ''-''" using h [of c] by (cases "nat p + 1 - length (nat_digits c)") (simp_all add: ds_def)
  moreover have "0 < p \<Longrightarrow> nat p < length ds" by (simp add: ds_def)
  ultimately show "\<not> has_prefix (fixed_text c p) ''-''"
    using h [of "c * 10 ^ nat (- p)"] nat_digits_simps(3) [of "c * 10 ^ nat (- p)"]
    unfolding fixed_text_def Let_def ds_def [symmetric]
    by (cases ds; cases "nat_digits (c * 10 ^ nat (- p))") (auto simp: take_Cons' split: if_splits)
  show "\<not> has_prefix (exponent_text c p) ''-''" using h [of c] by (simp add: exponent_text_def Let_def)
qed

lemma f32_parts: "of_nat ((if f32_neg a then 2 ^ 31 else 0) + f32_abs a) = a"
proof -
  have "unat a < 2 ^ 32" using unsigned_less [of a] by simp
  then have "(if f32_neg a then 2 ^ 31 else 0) + f32_abs a = unat a"
    by (auto simp: f32_neg_def f32_abs_def le_mod_geq)
  then show ?thesis by simp
qed

text \<open>The number printed in JSON reads back as the same number.\<close>

lemma ParseFloat32_text:
  assumes "f32_finite a"
  shows "ParseFloat32 (f32_text a) = Some a"
proof -
  obtain c p where cp: "f32_shortest a = (c, p)" by (cases "f32_shortest a")
  define body where "body = (if f32_abs a = 0 then ''0''
           else if f32_abs a < dec_pattern 1 (- 6) \<or> dec_pattern 1 21 \<le> f32_abs a then exponent_text c p
           else fixed_text c p)"
  have tx: "f32_text a = (if f32_neg a then ''-'' else []) @ body"
    by (simp only: f32_text_def cp Let_def prod.case body_def)
  have val: "case dec_value body of (m, e) \<Rightarrow> dec_pattern m e = f32_abs a"
  proof (cases "f32_abs a = 0")
    case True
    have "dec_value ''0'' = (0, 0)" by (simp add: dec_value_def split_char_def digits_val_def digit_val_def)
    moreover have "dec_pattern 0 0 = 0" by (simp add: dec_pattern_def f32_pattern_def round_even_def nat_bits.simps [of 0])
    ultimately show ?thesis using True by (simp add: body_def)
  next
    case False
    then show ?thesis
      using dec_value_fixed [of c p] f32_shortest_sound [OF assms cp]
      by (auto simp: body_def dec_value_exponent)
  qed
  have "\<not> has_prefix body ''-''" using text_no_sign by (simp add: body_def)
  then have sgn: "has_prefix (f32_text a) ''-'' = f32_neg a" and
    rest: "(if f32_neg a then tl (f32_text a) else f32_text a) = body"
    by (simp_all add: tx)
  obtain m e where me: "dec_value body = (m, e)" by (cases "dec_value body")
  have "f32_abs a \<noteq> 255 * 2 ^ 23" using assms by (simp add: f32_finite_def)
  then show ?thesis using val f32_parts [of a]
    unfolding ParseFloat32_dec Let_def sgn rest me prod.case by simp
qed

end
