(* ===== verification/Provider_Common.thy ===== *)
theory Provider_Common
  imports Instance_Model
begin

text \<open>
  Shared provider code: the identity indexes of src/pkg/providers/common.go and
  src/pkg/providers/identity.go, and the provider cache of
  src/pkg/providers/cache.go.

  The cache stores instances in a \<open>google/btree\<close>, ordered by identity key.  That
  package is the parameter \<open>ops\<close> of the cache operations; the locale
  \<open>btree_laws\<close> has its documented behaviour, in terms of the ascending list of
  the stored items.  The same operations on an ordered list are the reference
  tree \<open>list_btree\<close>, the form in which the providers hold their cache.
\<close>

section \<open>Identity indexes\<close>

fun prov_ListToMap_from :: "(string \<times> inst option) list \<Rightarrow> insts \<Rightarrow> (string \<times> inst option) list" where
  "prov_ListToMap_from m [] = m"
| "prov_ListToMap_from m (v # xs) =
    (let key = IdentityKeyOf v in
     prov_ListToMap_from (if map_of m key = None then aupd key v m else m) xs)"

definition prov_ListToMap :: "insts \<Rightarrow> (string \<times> inst option) list" where
  "prov_ListToMap ins = prov_ListToMap_from [] ins"

fun StrictListToMap_from ::
  "(string \<times> inst) list \<Rightarrow> string list \<Rightarrow> insts \<Rightarrow> (string \<times> inst) list \<times> string list" where
  "StrictListToMap_from m amb [] = (m, amb)"
| "StrictListToMap_from m amb (None # xs) = StrictListToMap_from m amb xs"
| "StrictListToMap_from m amb (Some v # xs) =
    (let key = IdentityKey v in
     if map_of m key \<noteq> None then
       StrictListToMap_from (adel key m) (if key \<notin> set amb then amb @ [key] else amb) xs
     else if key \<notin> set amb then StrictListToMap_from (aupd key v m) amb xs
     else StrictListToMap_from m amb xs)"

definition StrictListToMap :: "insts \<Rightarrow> (string \<times> inst) list \<times> string list" where
  "StrictListToMap ins = StrictListToMap_from [] [] ins"

fun IdentityIndex_from ::
  "(string \<times> inst) list \<Rightarrow> string list \<Rightarrow> insts \<Rightarrow> (string \<times> inst) list \<times> string list" where
  "IdentityIndex_from idx amb [] = (idx, amb)"
| "IdentityIndex_from idx amb (None # xs) = IdentityIndex_from idx amb xs"
| "IdentityIndex_from idx amb (Some item # xs) =
    (let key = IdentityKey item in
     if map_of idx key \<noteq> None \<and> key \<notin> set amb then IdentityIndex_from idx (amb @ [key]) xs
     else if key \<notin> set amb then IdentityIndex_from (aupd key item idx) amb xs
     else IdentityIndex_from idx amb xs)"

definition IdentityIndex :: "insts \<Rightarrow> (string \<times> inst) list \<times> string list" where
  "IdentityIndex items = IdentityIndex_from [] [] items"

definition legacyIdentity :: "inst \<Rightarrow> bool" where
  "legacyIdentity item = (SourceKey item = [] \<and> SourceCluster item = []
     \<and> go_get (Label item) ''sourceKey'' = [] \<and> go_get (Label item) ''sourceCluster'' = [])"

text \<open>The scan for a unique wire id: \<^term>\<open>None\<close> is the early return on a
  second match.\<close>

fun wire_match :: "string \<Rightarrow> inst option \<Rightarrow> insts \<Rightarrow> inst option option" where
  "wire_match wid m [] = Some m"
| "wire_match wid m (None # xs) = wire_match wid m xs"
| "wire_match wid m (Some item # xs) =
    (if InstanceId item \<noteq> wid then wire_match wid m xs
     else if m \<noteq> None then None
     else wire_match wid (Some item) xs)"

definition LookupIdentity :: "(string \<times> inst) list \<Rightarrow> insts \<Rightarrow> inst \<Rightarrow> inst option" where
  "LookupIdentity index items target =
    (case map_of index (IdentityKey target) of
       Some v \<Rightarrow> Some v
     | None \<Rightarrow>
        if InstanceId target = [] then None
        else case wire_match (InstanceId target) None items of
          None \<Rightarrow> None
        | Some None \<Rightarrow> None
        | Some (Some m) \<Rightarrow>
            if \<not> legacyIdentity target \<and> \<not> legacyIdentity m then
              (if SourceCluster target \<noteq> [] \<and> SourceCluster target = SourceCluster m
                  \<and> Provider target = Provider m \<and> AppCode target = AppCode m \<and> Ip target = Ip m
               then Some m else None)
            else Some m)"

text \<open>The filter of the providers package is the one of the domain package.\<close>

definition prov_instance_filter :: "inst option \<Rightarrow> error" where
  "prov_instance_filter x = (case x of
      None \<Rightarrow> Some (ErrNew ''nil resource instance'')
    | Some ins \<Rightarrow>
       if AppCode ins = [] then Some (ErrNew ''instance has nil appcode'')
       else if EnvType ins = [] then Some (ErrNew ''instance has nil env type'')
       else if Status ins = InstanceStatusOnline \<and> Ip ins = [] then
         Some (ErrNew ''instance has nil ip when it on online status'')
       else if State ins = InstanceStatePending then
         Some (ErrNew ''instance has nil ip when it on heal check status and pending state'')
       else if Reversion ins = 0 then Some (ErrNew ''instance has nil reversion'')
       else if Status ins = InstanceStatusUnknown then
         Some (ErrNew ''instance has status unknown value'')
       else None)"

section \<open>The cache\<close>

record 't btree_ops =
  bt_Get :: "inst \<Rightarrow> 't \<Rightarrow> inst option"
  bt_Delete :: "inst \<Rightarrow> 't \<Rightarrow> inst option \<times> 't"
  bt_ReplaceOrInsert :: "inst \<Rightarrow> 't \<Rightarrow> 't"
  bt_Ascend :: "'t \<Rightarrow> inst list"
  bt_Clear :: "'t \<Rightarrow> 't"

text \<open>The probe item built from an id: its identity key is the id.\<close>

definition cache_probe :: "string \<Rightarrow> inst" where
  "cache_probe i = zero_inst\<lparr>InstanceId := i, Label := [(''sourceKey'', i)]\<rparr>"

definition wire_only :: "string \<Rightarrow> bool" where
  "wire_only i = (CHR '':'' \<notin> set i \<and> CHR ''/'' \<notin> set i)"

text \<open>The scan that counts the items with a wire id: the last of them and their
  number.\<close>

definition cache_scan :: "string \<Rightarrow> inst list \<Rightarrow> inst option \<times> nat" where
  "cache_scan i xs = fold (\<lambda>v (c, n). if InstanceId v = i then (Some v, n + 1) else (c, n)) xs (None, 0)"

definition cache_Get :: "'t btree_ops \<Rightarrow> string \<Rightarrow> 't \<Rightarrow> inst option" where
  "cache_Get ops i t =
    (case bt_Get ops (cache_probe i) t of
       Some ins \<Rightarrow> Some ins
     | None \<Rightarrow>
        if wire_only i then
          (let (candidate, matches) = cache_scan i (bt_Ascend ops t)
           in if matches = 1 then candidate else None)
        else None)"

definition cache_List :: "'t btree_ops \<Rightarrow> 't \<Rightarrow> inst list" where
  "cache_List ops t = bt_Ascend ops t"

definition cache_Delete :: "'t btree_ops \<Rightarrow> string \<Rightarrow> 't \<Rightarrow> inst option \<times> 't" where
  "cache_Delete ops i t =
    (let (item, t') = bt_Delete ops (cache_probe i) t in
     if item = None \<and> wire_only i then
       (let (candidate, matches) = cache_scan i (bt_Ascend ops t') in
        if matches = 1 then
          (case candidate of Some c \<Rightarrow> bt_Delete ops c t' | None \<Rightarrow> (item, t'))
        else (item, t'))
     else (item, t'))"

definition cache_ReplaceOrInsert :: "'t btree_ops \<Rightarrow> inst option \<Rightarrow> 't \<Rightarrow> inst option \<times> 't" where
  "cache_ReplaceOrInsert ops ins t = (case ins of
      None \<Rightarrow> (None, t)
    | Some v \<Rightarrow> (Some v, bt_ReplaceOrInsert ops v t))"

definition cache_Clear :: "'t btree_ops \<Rightarrow> 't \<Rightarrow> 't" where
  "cache_Clear ops t = bt_Clear ops t"

definition cache_Less :: "inst \<Rightarrow> inst \<Rightarrow> bool" where
  "cache_Less a b = (IdentityKey a < IdentityKey b)"

section \<open>Trees\<close>

text \<open>The content of a tree as a finite map from identity keys.\<close>

definition content :: "inst list \<Rightarrow> string \<Rightarrow> inst option" where
  "content xs = map_of (map (\<lambda>v. (IdentityKey v, v)) xs)"

abbreviation ascending :: "inst list \<Rightarrow> bool" where
  "ascending xs \<equiv> sorted_wrt cache_Less xs"

locale btree_laws =
  fixes ops :: "'t btree_ops"
    and valid :: "'t \<Rightarrow> bool"
  assumes ascend_sorted: "valid t \<Longrightarrow> ascending (bt_Ascend ops t)"
    and get: "valid t \<Longrightarrow> bt_Get ops x t = content (bt_Ascend ops t) (IdentityKey x)"
    and delete_item: "valid t \<Longrightarrow> fst (bt_Delete ops x t) = content (bt_Ascend ops t) (IdentityKey x)"
    and delete_tree: "valid t \<Longrightarrow> bt_Ascend ops (snd (bt_Delete ops x t))
      = filter (\<lambda>v. IdentityKey v \<noteq> IdentityKey x) (bt_Ascend ops t)"
    and insert_content: "valid t \<Longrightarrow> content (bt_Ascend ops (bt_ReplaceOrInsert ops x t))
      = (content (bt_Ascend ops t))(IdentityKey x \<mapsto> x)"
    and clear: "valid t \<Longrightarrow> bt_Ascend ops (bt_Clear ops t) = []"
    and valid_delete: "valid t \<Longrightarrow> valid (snd (bt_Delete ops x t))"
    and valid_insert: "valid t \<Longrightarrow> valid (bt_ReplaceOrInsert ops x t)"
    and valid_clear: "valid t \<Longrightarrow> valid (bt_Clear ops t)"

text \<open>The reference tree: a list in ascending order.\<close>

fun list_insert :: "inst \<Rightarrow> inst list \<Rightarrow> inst list" where
  "list_insert x [] = [x]"
| "list_insert x (y # ys) =
    (if cache_Less x y then x # y # ys
     else if cache_Less y x then y # list_insert x ys
     else x # ys)"

definition list_btree :: "inst list btree_ops" where
  "list_btree = \<lparr>
     bt_Get = (\<lambda>x t. content t (IdentityKey x)),
     bt_Delete = (\<lambda>x t. (content t (IdentityKey x), filter (\<lambda>v. IdentityKey v \<noteq> IdentityKey x) t)),
     bt_ReplaceOrInsert = list_insert,
     bt_Ascend = id,
     bt_Clear = (\<lambda>_. [])\<rparr>"

section \<open>Content of an ordered list\<close>

lemma cache_Less_irrefl [simp]: "\<not> cache_Less a a"
  by (simp add: cache_Less_def)

lemma ascending_keys: "ascending xs \<Longrightarrow> distinct (map IdentityKey xs)"
  by (induction xs) (auto simp: cache_Less_def)

lemma content_Nil [simp]: "content [] = Map.empty"
  by (simp add: content_def)

lemma content_Cons: "content (x # xs) = (content xs)(IdentityKey x \<mapsto> x)"
  by (simp add: content_def)

lemma content_None_iff: "content xs k = None \<longleftrightarrow> k \<notin> IdentityKey ` set xs"
  by (auto simp: content_def map_of_eq_None_iff image_iff)

lemma content_SomeD: "content xs k = Some v \<Longrightarrow> v \<in> set xs \<and> IdentityKey v = k"
  by (auto simp: content_def dest: map_of_SomeD)

lemma content_Some_iff:
  "ascending xs \<Longrightarrow> content xs k = Some v \<longleftrightarrow> v \<in> set xs \<and> IdentityKey v = k"
  by (induction xs) (auto simp: content_Cons cache_Less_def)

lemma content_filter: "content (filter (\<lambda>v. IdentityKey v \<noteq> k) xs) = (content xs)(k := None)"
  by (induction xs) (auto simp: content_Cons fun_eq_iff)

lemma set_list_insert: "set (list_insert x ys) \<subseteq> insert x (set ys)"
  by (induction x ys rule: list_insert.induct) auto

lemma cache_Less_trans: "cache_Less a b \<Longrightarrow> cache_Less b c \<Longrightarrow> cache_Less a c"
  by (simp add: cache_Less_def)

lemma cache_Less_total: "\<not> cache_Less a b \<Longrightarrow> \<not> cache_Less b a \<Longrightarrow> IdentityKey a = IdentityKey b"
  by (simp add: cache_Less_def)

lemma cache_Less_cong: "IdentityKey a = IdentityKey b \<Longrightarrow> cache_Less a c \<longleftrightarrow> cache_Less b c"
  by (simp add: cache_Less_def)

lemma ascending_list_insert: "ascending ys \<Longrightarrow> ascending (list_insert x ys)"
proof (induction x ys rule: list_insert.induct)
  case (2 x y ys)
  then have y: "\<forall>z \<in> set ys. cache_Less y z" and s: "ascending ys" by simp_all
  consider (l) "cache_Less x y" | (g) "\<not> cache_Less x y" "cache_Less y x"
    | (e) "\<not> cache_Less x y" "\<not> cache_Less y x" by blast
  then show ?case
  proof cases
    case l
    then have "\<forall>z \<in> set ys. cache_Less x z" using y cache_Less_trans by blast
    with l y s show ?thesis by simp
  next
    case g
    have "\<forall>z \<in> set (list_insert x ys). cache_Less y z" using set_list_insert [of x ys] y g(2) by blast
    with g y s "2.IH" show ?thesis by simp
  next
    case e
    have "\<forall>z \<in> set ys. cache_Less x z" using y cache_Less_cong [OF cache_Less_total [OF e]] by blast
    with e s show ?thesis by simp
  qed
qed simp

lemma content_list_insert: "ascending ys \<Longrightarrow> content (list_insert x ys) = (content ys)(IdentityKey x \<mapsto> x)"
proof (induction x ys rule: list_insert.induct)
  case (2 x y ys)
  consider (l) "cache_Less x y" | (g) "\<not> cache_Less x y" "cache_Less y x"
    | (e) "\<not> cache_Less x y" "\<not> cache_Less y x" by blast
  then show ?case
  proof cases
    case l
    then show ?thesis by (simp add: content_Cons fun_upd_def fun_eq_iff)
  next
    case g
    then have "IdentityKey x \<noteq> IdentityKey y" by (auto simp: cache_Less_def)
    with g 2 show ?thesis by (auto simp: content_Cons fun_eq_iff)
  next
    case e
    then show ?thesis using cache_Less_total [OF e] by (simp add: content_Cons fun_eq_iff)
  qed
qed (simp add: content_Cons)

interpretation lb: btree_laws list_btree "\<lambda>t. ascending t"
  by unfold_locales
    (auto simp: list_btree_def content_list_insert ascending_list_insert sorted_wrt_filter)

section \<open>The cache is a map\<close>

lemma IdentityKey_probe [simp]: "IdentityKey (cache_probe i) = i"
  by (simp add: IdentityKey_def cache_probe_def zero_inst_def go_get_def)

lemma cache_scan_acc:
  "fold (\<lambda>v (c, n). if InstanceId v = i then (Some v, n + 1) else (c, n)) xs (c0, n0)
    = (case filter (\<lambda>v. InstanceId v = i) xs of [] \<Rightarrow> c0 | f \<Rightarrow> Some (last f),
       n0 + length (filter (\<lambda>v. InstanceId v = i) xs))"
  by (induction xs arbitrary: c0 n0) (auto split: list.splits)

lemma cache_scan_one:
  "cache_scan i xs = (c, 1) \<longleftrightarrow> (\<exists>v. filter (\<lambda>v. InstanceId v = i) xs = [v] \<and> c = Some v)"
  unfolding cache_scan_def cache_scan_acc by (auto split: list.splits)

lemma cache_scan_snd: "snd (cache_scan i xs) = length (filter (\<lambda>v. InstanceId v = i) xs)"
  unfolding cache_scan_def cache_scan_acc by simp

context btree_laws
begin

lemma Get_key:
  "valid t \<Longrightarrow> content (bt_Ascend ops t) i = Some v \<Longrightarrow> cache_Get ops i t = Some v"
  by (simp add: cache_Get_def get)

lemma Get_absent:
  assumes "valid t" and "content (bt_Ascend ops t) i = None"
  shows "cache_Get ops i t = (case filter (\<lambda>v. InstanceId v = i) (bt_Ascend ops t) of
      [v] \<Rightarrow> if wire_only i then Some v else None | _ \<Rightarrow> None)"
proof (cases "filter (\<lambda>v. InstanceId v = i) (bt_Ascend ops t)" rule: remdups_adj.cases)
  case (2 v)
  then have "cache_scan i (bt_Ascend ops t) = (Some v, 1)" unfolding cache_scan_one by simp
  with 2 assms show ?thesis by (simp add: cache_Get_def get)
next
  case 1
  then show ?thesis using assms cache_scan_snd [of i "bt_Ascend ops t"]
    by (simp add: cache_Get_def get split_beta)
next
  case (3 v w ws)
  then show ?thesis using assms cache_scan_snd [of i "bt_Ascend ops t"]
    by (simp add: cache_Get_def get split_beta)
qed

lemma Insert_content:
  "valid t \<Longrightarrow> content (cache_List ops (snd (cache_ReplaceOrInsert ops (Some v) t)))
     = (content (cache_List ops t))(IdentityKey v \<mapsto> v)"
  by (simp add: cache_List_def cache_ReplaceOrInsert_def insert_content)

lemma Get_after_Insert:
  "valid t \<Longrightarrow> cache_Get ops (IdentityKey v) (snd (cache_ReplaceOrInsert ops (Some v) t)) = Some v"
  by (rule Get_key) (simp_all add: cache_ReplaceOrInsert_def valid_insert insert_content)

lemma Delete_key:
  assumes "valid t" and "content (cache_List ops t) i = Some v"
  shows "fst (cache_Delete ops i t) = Some v
    \<and> content (cache_List ops (snd (cache_Delete ops i t))) = (content (cache_List ops t))(i := None)"
proof -
  have "fst (bt_Delete ops (cache_probe i) t) = Some v"
    using assms by (simp add: delete_item cache_List_def)
  then show ?thesis using assms
    by (simp add: cache_Delete_def split_beta Let_def cache_List_def delete_tree content_filter)
qed

lemma Delete_absent:
  assumes "valid t" and "content (cache_List ops t) i = None"
    and "length (filter (\<lambda>v. InstanceId v = i) (cache_List ops t)) \<noteq> 1 \<or> \<not> wire_only i"
  shows "fst (cache_Delete ops i t) = None \<and> cache_List ops (snd (cache_Delete ops i t)) = cache_List ops t"
proof -
  have none: "fst (bt_Delete ops (cache_probe i) t) = None"
    using assms(1,2) by (simp add: delete_item cache_List_def)
  have "i \<notin> IdentityKey ` set (bt_Ascend ops t)" using assms(2) by (simp add: cache_List_def content_None_iff)
  then have "bt_Ascend ops (snd (bt_Delete ops (cache_probe i) t)) = bt_Ascend ops t"
    using assms(1) by (simp add: delete_tree image_iff filter_id_conv) metis
  with none show ?thesis using assms(3)
    by (auto simp: cache_Delete_def split_beta Let_def cache_List_def cache_scan_snd)
qed

end



section \<open>Indexes\<close>

text \<open>The items of a list under an identity key, in order.\<close>

definition under_key :: "string \<Rightarrow> insts \<Rightarrow> inst list" where
  "under_key k xs = filter (\<lambda>v. IdentityKey v = k) (drop_none xs)"

lemma under_key_simps [simp]:
  "under_key k [] = []"
  "under_key k (None # xs) = under_key k xs"
  "under_key k (Some v # xs) = (if IdentityKey v = k then v # under_key k xs else under_key k xs)"
  by (simp_all add: under_key_def)

text \<open>What the loop of \<open>StrictListToMap\<close> knows of the items it has seen.\<close>

definition strict_index :: "insts \<Rightarrow> (string \<times> inst) list \<Rightarrow> string list \<Rightarrow> bool" where
  "strict_index seen m amb \<longleftrightarrow> distinct amb
     \<and> (\<forall>k v. map_of m k = Some v \<longleftrightarrow> under_key k seen = [v])
     \<and> (\<forall>k. k \<in> set amb \<longleftrightarrow> 2 \<le> length (under_key k seen))"

lemma under_key_append [simp]: "under_key k (xs @ ys) = under_key k xs @ under_key k ys"
  by (simp add: under_key_def)

lemma strict_index_key:
  assumes "strict_index seen m amb"
  shows "map_of m k = (case under_key k seen of [v] \<Rightarrow> Some v | _ \<Rightarrow> None)"
    and "k \<in> set amb \<longleftrightarrow> 2 \<le> length (under_key k seen)"
proof -
  have i: "map_of m k = Some v \<longleftrightarrow> under_key k seen = [v]" for v
    using assms by (simp add: strict_index_def)
  show "map_of m k = (case under_key k seen of [v] \<Rightarrow> Some v | _ \<Rightarrow> None)"
  proof (cases "map_of m k")
    case None
    with i have "under_key k seen \<noteq> [v]" for v by (metis option.distinct(1))
    with None show ?thesis by (auto split: list.split)
  next
    case (Some v)
    with i [of v] show ?thesis by simp
  qed
qed (use assms in \<open>simp add: strict_index_def\<close>)

lemma StrictListToMap_from_spec:
  "strict_index seen m amb \<Longrightarrow> StrictListToMap_from m amb xs = (m', amb')
    \<Longrightarrow> strict_index (seen @ xs) m' amb'"
proof (induction m amb xs arbitrary: seen rule: StrictListToMap_from.induct)
  case (1 m amb)
  then show ?case by simp
next
  case (2 m amb xs)
  then have "strict_index ((seen @ [None]) @ xs) m' amb'"
    by (intro "2.IH") (auto simp: strict_index_def)
  then show ?case by simp
next
  case (3 m amb v xs)
  let ?key = "IdentityKey v"
  note k = strict_index_key [OF "3.prems"(1)]
  have d: "distinct amb" using "3.prems"(1) by (simp add: strict_index_def)
  show ?case
  proof (cases "under_key ?key seen" rule: remdups_adj.cases)
    case 1
    then have "strict_index (seen @ [Some v]) (aupd ?key v m) amb"
      unfolding strict_index_def using d by (auto simp: k split: list.splits)
    then have "strict_index ((seen @ [Some v]) @ xs) m' amb'"
      using "3.prems"(2) 1 by (intro "3.IH"(2) [OF refl]) (simp_all add: k Let_def)
    then show ?thesis by simp
  next
    case (2 u)
    then have "strict_index (seen @ [Some v]) (adel ?key m) (amb @ [?key])"
      unfolding strict_index_def using d by (auto simp: k split: list.splits)
    then have "strict_index ((seen @ [Some v]) @ xs) m' amb'"
      using "3.prems"(2) 2 by (intro "3.IH"(1) [OF refl]) (simp_all add: k Let_def)
    then show ?thesis by simp
  next
    case (3 u w ws)
    then have "strict_index (seen @ [Some v]) m amb"
      unfolding strict_index_def using d by (auto simp: k split: list.splits)
    then have "strict_index ((seen @ [Some v]) @ xs) m' amb'"
      using "3.prems"(2) 3 by (intro "3.IH"(3) [OF refl]) (simp_all add: k Let_def)
    then show ?thesis by simp
  qed
qed

text \<open>\<open>StrictListToMap\<close> quarantines exactly the identities that occur more than
  once: an identity maps to an instance iff that instance is the only one with
  it, and the ambiguous keys, each listed once, are those with at least two.\<close>

theorem StrictListToMap_quarantines:
  "StrictListToMap xs = (m, amb) \<Longrightarrow>
     (map_of m k = Some v \<longleftrightarrow> filter (\<lambda>v. IdentityKey v = k) (drop_none xs) = [v])
   \<and> (k \<in> set amb \<longleftrightarrow> 2 \<le> length (filter (\<lambda>v. IdentityKey v = k) (drop_none xs)))
   \<and> distinct amb"
  using StrictListToMap_from_spec [of "[]" "[]" "[]" xs m amb]
  by (simp add: StrictListToMap_def strict_index_def under_key_def)

theorem StrictListToMap_quarantines_witness:
  "StrictListToMap [Some sample_new, None, Some sample_other, Some sample_new]
     = ([(''k8s/d/i'', sample_other)], [''k8s/c/i''])
   \<and> ''k8s/c/i'' \<in> set [''k8s/c/i'']"
proof -
  have eq: "StrictListToMap [Some sample_new, None, Some sample_other, Some sample_new]
     = ([(''k8s/d/i'', sample_other)], [''k8s/c/i''])"
    by (simp add: StrictListToMap_def IdentityKey_def sample_new_def sample_other_def adel_def Let_def)
  from StrictListToMap_quarantines [OF eq, of "''k8s/c/i''"] eq show ?thesis by simp
qed

lemma wire_match_spec:
  "wire_match wid m xs = (case m of
      None \<Rightarrow> (case filter (\<lambda>v. InstanceId v = wid) (drop_none xs) of
                 [] \<Rightarrow> Some None | [v] \<Rightarrow> Some (Some v) | _ \<Rightarrow> None)
    | Some u \<Rightarrow> (case filter (\<lambda>v. InstanceId v = wid) (drop_none xs) of [] \<Rightarrow> Some (Some u) | _ \<Rightarrow> None))"
  by (induction wid m xs rule: wire_match.induct) (auto split: option.splits list.splits)

text \<open>\<open>LookupIdentity\<close> never confuses two explicit identities: an instance it
  returns is indexed under the target's identity key, or it is the only item
  with the target's wire id and either one of the two predates source keys or
  both come from the same source cluster, provider, application and address.\<close>

theorem LookupIdentity_safe:
  assumes "LookupIdentity index items target = Some m"
  shows "map_of index (IdentityKey target) = Some m
    \<or> (InstanceId target \<noteq> [] \<and> filter (\<lambda>v. InstanceId v = InstanceId target) (drop_none items) = [m]
       \<and> (legacyIdentity target \<or> legacyIdentity m
          \<or> SourceCluster target \<noteq> [] \<and> SourceCluster target = SourceCluster m
            \<and> Provider target = Provider m \<and> AppCode target = AppCode m \<and> Ip target = Ip m))"
  using assms
  by (auto simp: LookupIdentity_def wire_match_spec split: option.splits if_splits list.splits)

theorem LookupIdentity_safe_witness:
  "LookupIdentity [] [None, Some sample_legacy] sample_new = Some sample_legacy
   \<and> filter (\<lambda>v. InstanceId v = InstanceId sample_new) (drop_none [None, Some sample_legacy]) = [sample_legacy]"
proof -
  have eq: "LookupIdentity [] [None, Some sample_legacy] sample_new = Some sample_legacy"
    by (simp add: LookupIdentity_def sample_legacy_def sample_new_def legacyIdentity_def zero_inst_def go_get_def)
  from LookupIdentity_safe [OF eq] eq show ?thesis by simp
qed

end
