(* ===== verification/K8s_Convert.thy ===== *)
theory K8s_Convert
  imports K8s_Robot Float32 Provider_Common
begin

text \<open>
  The conversion of a pod into an instance, src/pkg/providers/k8s/conversion.go,
  function by function.  A nil \<open>pushAppCodes\<close> (no filter) is \<^term>\<open>None\<close>; the
  diagnostics the code logs on the way are left out.
\<close>

section \<open>Constants\<close>

definition ProtoHTTP :: string where "ProtoHTTP = ''http''"
definition ProtoGRPC :: string where "ProtoGRPC = ''grpc''"
definition ProtoDubbo :: string where "ProtoDubbo = ''dubbo''"

definition LabelAosNamespace :: string where "LabelAosNamespace = ''compatibility:aos_namespace''"
definition LabelAosApp :: string where "LabelAosApp = ''compatibility:aos_app''"
definition LabelAosDrHost :: string where "LabelAosDrHost = ''compatibility:aos_dr_host''"
definition LabelAosMark :: string where "LabelAosMark = ''compatibility:aos_mark''"
definition LabelEnvSan :: string where "LabelEnvSan = ''env:san''"
definition SpringApplicationName :: string where "SpringApplicationName = ''spring.application.name''"

lemmas label_defs = LabelAosNamespace_def LabelAosApp_def LabelAosDrHost_def LabelAosMark_def
  LabelEnvSan_def SpringApplicationName_def

section \<open>Fields\<close>

text \<open>\<open>IsZero\<close> of a deletion time: nil or the zero instant.\<close>

definition time_IsZero :: "int option \<Rightarrow> bool" where
  "time_IsZero t = (t = None \<or> t = Some 0)"

definition env_map :: "(string \<times> string) list \<Rightarrow> gomap" where
  "env_map env = fold (\<lambda>(k, v). aupd k v) env []"

definition formatLableInfo :: "pod option \<Rightarrow> gomap \<Rightarrow> gomap \<Rightarrow> gomap" where
  "formatLableInfo p originLables envs =
    (let l0 = fold (\<lambda>(k, v). aupd k v) originLables [];
         l1 = (if envs \<noteq> [] then
                 (case map_of envs SpringApplicationName of
                    Some san \<Rightarrow> aupd LabelEnvSan san l0
                  | None \<Rightarrow> l0)
               else l0);
         l2 = aupd LabelAosNamespace [] l1;
         l3 = (case p of Some pod \<Rightarrow> aupd LabelAosNamespace (p_Namespace pod) l2 | None \<Rightarrow> l2)
     in if originLables \<noteq> [] then
          (let l4 = aupd LabelAosApp [] l3;
               l5 = (case map_of originLables ''app'' of Some lapp \<Rightarrow> aupd LabelAosApp lapp l4 | None \<Rightarrow> l4);
               drHost = (if map_of originLables ''deploy-id'' \<noteq> None
                         then go_get l5 LabelAosApp @ ''.'' @ go_get l5 LabelAosNamespace
                         else go_get l5 LabelAosApp);
               l6 = aupd LabelAosDrHost drHost l5
           in case map_of originLables ''mark'' of Some mark \<Rightarrow> aupd LabelAosMark mark l6 | None \<Rightarrow> l6)
        else l3)"

definition container_port_info :: "container_port \<Rightarrow> port_info" where
  "container_port_info p =
    \<lparr>PName = cp_Name p,
     Protocol = (if cp_Protocol p = ''TCP'' then
                   if has_prefix (cp_Name p) ''http'' then ProtoHTTP
                   else if has_prefix (cp_Name p) ''grpc'' then ProtoGRPC else []
                 else []),
     Port = cp_ContainerPort p, ServicePort = 0\<rparr>"

definition formatAppPort :: "pod \<Rightarrow> port_info option list" where
  "formatAppPort pod =
    (if p_Containers pod \<noteq> [] then
       Some \<lparr>PName = ''dubbo'' @ ''-'' @ int_digits 7096, Protocol = ProtoDubbo, Port = 7096, ServicePort = 0\<rparr>
       # map (\<lambda>p. Some (container_port_info p)) (concat (map c_Ports (p_Containers pod)))
     else [])"

definition formatAppCode :: "pod \<Rightarrow> string" where
  "formatAppCode pod = (case map_of (p_Labels pod) ''app-code'' of
      Some code \<Rightarrow> code
    | None \<Rightarrow> (case map_of (p_Labels pod) ''cadvisor-app'' of
        Some code \<Rightarrow> code
      | None \<Rightarrow> p_Namespace pod @ ''-'' @ go_get (p_Labels pod) ''name''))"

definition containersReady :: "pod option \<Rightarrow> bool" where
  "containersReady p = (case p of
      None \<Rightarrow> False
    | Some pod \<Rightarrow> p_Containers pod \<noteq> []
        \<and> length (p_ContainerStatuses pod) = length (p_Containers pod)
        \<and> list_all (\<lambda>c. cs_Ready c \<and> cs_Running c) (p_ContainerStatuses pod))"

definition formatStatus :: "QueueObject option \<Rightarrow> pod option \<Rightarrow> int32" where
  "formatStatus obj p = (case p of
      None \<Rightarrow> InstanceStatusOffline
    | Some pod \<Rightarrow>
       if (case obj of Some ob \<Rightarrow> qo_Event ob = EventDelete | None \<Rightarrow> False) then InstanceStatusOffline
       else if \<not> time_IsZero (p_DeletionTimestamp pod) then InstanceStatusOffline
       else if p_Phase pod = ''Running'' then
         if containersReady p then InstanceStatusOnline else InstanceStatusUnhealthy
       else if p_Phase pod = ''Failed'' then
         if p_Reason pod = ''Evicted'' then InstanceStatusUnhealthy else InstanceStatusOffline
       else if p_Phase pod = ''Pending'' then InstanceStatusUnhealthy
       else InstanceStatusOffline)"

definition formatEnvType :: "pod \<Rightarrow> string \<Rightarrow> string" where
  "formatEnvType pod envType0 =
    (let envType = (case map_of (p_Labels pod) ''env-type'' of
           Some env \<Rightarrow> if envType0 \<noteq> [] then env
              else (case map_of (p_Labels pod) ''K8S_CLUSTER_TYPE'' of Some env \<Rightarrow> env | None \<Rightarrow> envType0)
         | None \<Rightarrow> (case map_of (p_Labels pod) ''K8S_CLUSTER_TYPE'' of
              Some env \<Rightarrow> if envType0 = [] then env else envType0
            | None \<Rightarrow> envType0));
         envType = to_lower envType
     in if envType = ''online'' then EnvProduct else envType)"

definition formatContainerEnabled :: "pod option \<Rightarrow> bool" where
  "formatContainerEnabled p = (case p of
      None \<Rightarrow> False
    | Some pod \<Rightarrow> p_Phase pod = ''Running'' \<and> containersReady p \<and> p_DeletionTimestamp pod = None)"

definition formatCpuSize :: "quantity \<Rightarrow> float32" where
  "formatCpuSize r = (case q_AsInt64 r of
      None \<Rightarrow> f32_div (f32_of_int (fst (Atoi (first_digits (q_String r))))) (f32_of_int 1000)
    | Some cpuInt \<Rightarrow> f32_of_int cpuInt)"

definition formatMemorySize :: "quantity \<Rightarrow> int32" where
  "formatMemorySize r =
    (let memoryInt = (case q_AsInt64 r of Some i \<Rightarrow> i | None \<Rightarrow> 0)
     in if CHR ''i'' \<in> set (q_String r) then to_int32 (memoryInt sdiv 1024 sdiv 1024)
        else to_int32 (memoryInt sdiv 1000 sdiv 1000))"

text \<open>The scan over the container statuses: ready, crashed, errored.\<close>

fun status_scan :: "bool \<times> bool \<times> bool \<Rightarrow> container_status list \<Rightarrow> bool \<times> bool \<times> bool" where
  "status_scan (already, crashed, errored) [] = (already, crashed, errored)"
| "status_scan (already, crashed, errored) (cs # rest) =
    (if \<not> cs_Ready cs then
       if cs_Waiting cs = Some ''CrashLoopBackOff'' \<and> cs_LastTerminated cs = Some ''Error''
       then status_scan (False, crashed, True) rest
       else if cs_Waiting cs = Some ''CrashLoopBackOff'' then status_scan (False, True, errored) rest
       else status_scan (False, crashed, errored) rest
     else status_scan (already, crashed, errored) rest)"

definition formatState :: "pod option \<Rightarrow> string" where
  "formatState p =
    (let state = (case p of
         None \<Rightarrow> []
       | Some pod \<Rightarrow>
          if \<not> time_IsZero (p_DeletionTimestamp pod) then InstanceStateTerminated
          else if p_Phase pod \<noteq> ''Running'' then
            if p_Phase pod = ''Pending'' then InstanceStatePending
            else if p_Phase pod = ''Unknown'' then InstanceStateUnknown
            else if p_Phase pod = ''Failed'' then
              if p_Reason pod = ''Evicted'' then InstanceStateEvicted else InstanceStateFailed
            else if p_Phase pod = ''Succeeded'' then InstanceStateTerminated
            else []
          else
            let (already, crashed, errored) =
                  status_scan (containersReady p, False, False) (p_ContainerStatuses pod)
            in if already then InstanceStateRunning
               else if errored then InstanceStateError
               else if crashed then InstanceStateCrash
               else InstanceStateProbing)
     in if state = [] then InstanceStateUnknown else state)"

text \<open>The environment of the containers named \<open>application\<close>, later ones over
  earlier ones.\<close>

definition application_envs :: "pod \<Rightarrow> gomap" where
  "application_envs pod =
     env_map (concat (map c_Env (filter (\<lambda>c. c_Name c = ''application'') (p_Containers pod))))"

definition formatIDC :: "pod \<Rightarrow> string" where
  "formatIDC pod = (case map_of (p_Labels pod) ''idc'' of
      Some idc \<Rightarrow> idc
    | None \<Rightarrow> (case map_of (application_envs pod) ''APP_IDC'' of Some cluster \<Rightarrow> cluster | None \<Rightarrow> []))"

definition formatCluster :: "pod \<Rightarrow> string" where
  "formatCluster pod =
    (if map_of (p_Labels pod) ''cluster-name'' \<noteq> None \<and> go_get (p_Labels pod) ''cluster-name'' \<noteq> []
     then go_get (p_Labels pod) ''cluster-name''
     else case map_of (p_Labels pod) ''cluster'' of
       Some idc \<Rightarrow> idc
     | None \<Rightarrow> (case map_of (application_envs pod) ''K8S_CLUSTER_NAME'' of Some cluster \<Rightarrow> cluster | None \<Rightarrow> []))"

section \<open>The instance\<close>

record RuntimeConfig =
  rc_Cpu :: float32
  rc_Memory :: int32
  rc_Image :: gomap
  rc_Environments :: gomap

text \<open>The loop over the containers: the discovered environment type and the
  runtime configuration.  Only the last container named \<open>application\<close> gives the
  environment here.\<close>

definition scan_container :: "container \<Rightarrow> string \<times> RuntimeConfig \<Rightarrow> string \<times> RuntimeConfig" where
  "scan_container c st = (case st of (envType, rc) \<Rightarrow>
    (fold (\<lambda>(name, value) e. if name = ''K8S_CLUSTER_TYPE'' then value else e) (c_Env c) envType,
     rc\<lparr>rc_Environments := (if c_Name c = ''application'' then env_map (c_Env c) else rc_Environments rc),
        rc_Image := aupd (c_Name c) (c_Image c) (rc_Image rc),
        rc_Cpu := f32_add (rc_Cpu rc) (formatCpuSize (c_CpuLimit c)),
        rc_Memory := to_int32 (rc_Memory rc + formatMemorySize (c_MemoryLimit c))\<rparr>))"

definition scan_containers :: "pod \<Rightarrow> string \<times> RuntimeConfig" where
  "scan_containers pod = fold scan_container (p_Containers pod)
     ([], \<lparr>rc_Cpu = 0, rc_Memory = 0, rc_Image = [], rc_Environments = []\<rparr>)"

definition app_allowed :: "string list option \<Rightarrow> string \<Rightarrow> bool" where
  "app_allowed pushAppCodes appCode = (case pushAppCodes of None \<Rightarrow> True | Some codes \<Rightarrow> appCode \<in> set codes)"

definition source_labels :: "QueueObject option \<Rightarrow> pod \<Rightarrow> gomap \<Rightarrow> gomap" where
  "source_labels obj pod label = (case obj of
      None \<Rightarrow> label
    | Some ob \<Rightarrow>
       let l1 = (if qo_ClusterID ob \<noteq> [] then aupd ''sourceCluster'' (qo_ClusterID ob) label else label)
       in if qo_UID ob \<noteq> [] then aupd ''sourceKey'' (qo_ClusterID ob @ ''/'' @ p_UID pod) l1 else l1)"

definition formatInstanceWithDeps :: "QueueObject option \<Rightarrow> pod option \<Rightarrow> string list option \<Rightarrow> inst option" where
  "formatInstanceWithDeps obj p pushAppCodes = (case p of
      None \<Rightarrow> None
    | Some pod \<Rightarrow>
       let labels = p_Labels pod;
           (envType0, rc) = scan_containers pod;
           portInfos = formatAppPort pod;
           appCode = formatAppCode pod
       in if appCode = [] then None
          else if \<not> app_allowed pushAppCodes appCode then None
          else
            let state = formatState p;
                status = formatStatus obj p;
                envType = formatEnvType pod envType0;
                idc = formatIDC pod;
                cluster = formatCluster pod;
                enabled = formatContainerEnabled p;
                reversion = fst (ParseInt64 (p_ResourceVersion pod));
                envGroup = go_get labels ''env-group'';
                envCode = envType @ ''#'' @ envGroup;
                label = source_labels obj pod (formatLableInfo p labels (rc_Environments rc))
            in Some (zero_inst\<lparr>
                 SourceKey := go_get label ''sourceKey'', SourceCluster := go_get label ''sourceCluster'',
                 InstanceId := p_Name pod, Ports := portInfos, AppCode := appCode, EnvCode := envCode,
                 EnvType := envType, EnvGroup := envGroup, Version := go_get labels ''version'',
                 Ip := p_PodIP pod, Enabled := enabled, State := state, Provider := ''k8s'',
                 Hostname := p_Name pod, Cpu := rc_Cpu rc, Memory := rc_Memory rc, Image := rc_Image rc,
                 Idc := idc, inst.Cluster := cluster, Reversion := reversion, Status := status,
                 Label := label\<rparr>))"

definition ConvertPod :: "QueueObject option \<Rightarrow> pod option \<Rightarrow> string list option \<Rightarrow> inst option" where
  "ConvertPod obj p pushAppCodes = formatInstanceWithDeps obj p pushAppCodes"

section \<open>State and status follow the domain policy\<close>

text \<open>The observation a pod and its event amount to.\<close>

definition pod_observation :: "QueueObject option \<Rightarrow> pod \<Rightarrow> PodObservation" where
  "pod_observation obj pod =
    (let bad = filter (\<lambda>cs. \<not> cs_Ready cs \<and> cs_Waiting cs = Some ''CrashLoopBackOff'') (p_ContainerStatuses pod)
     in \<lparr>Phase = p_Phase pod, PodReason = p_Reason pod,
         WaitingReason = (if bad = [] then [] else ''CrashLoopBackOff''),
         LastTerminationReason = (if list_ex (\<lambda>cs. cs_LastTerminated cs = Some ''Error'') bad then ''Error'' else []),
         ContainerReady = containersReady (Some pod), ContainerRunning = containersReady (Some pod),
         Deleting = (\<not> time_IsZero (p_DeletionTimestamp pod)), ObsLabels = p_Labels pod,
         ObsEnv = application_envs pod, ObsEvent = (case obj of Some ob \<Rightarrow> qo_Event ob | None \<Rightarrow> [])\<rparr>)"

lemma status_scan_spec:
  "status_scan (a, c, e) css =
    (a \<and> list_all cs_Ready css,
     c \<or> (\<exists>cs \<in> set css. \<not> cs_Ready cs \<and> cs_Waiting cs = Some ''CrashLoopBackOff'' \<and> cs_LastTerminated cs \<noteq> Some ''Error''),
     e \<or> (\<exists>cs \<in> set css. \<not> cs_Ready cs \<and> cs_Waiting cs = Some ''CrashLoopBackOff'' \<and> cs_LastTerminated cs = Some ''Error''))"
  by (induction css arbitrary: a c e) auto

lemma containersReady_all: "containersReady (Some pod) \<Longrightarrow> list_all cs_Ready (p_ContainerStatuses pod)"
  by (auto simp: containersReady_def list_all_iff)

text \<open>C16: The provider's \<open>formatState\<close> and \<open>formatStatus\<close>, which scan every container
  of a pod, implement the domain's \<open>StateOf\<close> and \<open>StatusOf\<close> on the observation of
  the pod: ready only if every declared container reports ready and running,
  crashing if any unready one backs off, in error if one of those ended with an
  error.\<close>

theorem format_refines_policy:
  "formatState (Some pod) = StateOf (pod_observation obj pod)
   \<and> formatStatus obj (Some pod) = StatusOf (pod_observation obj pod)"
proof
  let ?css = "p_ContainerStatuses pod"
  let ?bad = "filter (\<lambda>cs. \<not> cs_Ready cs \<and> cs_Waiting cs = Some ''CrashLoopBackOff'') ?css"
  define E where "E \<longleftrightarrow> (\<exists>cs \<in> set ?css. \<not> cs_Ready cs \<and> cs_Waiting cs = Some ''CrashLoopBackOff'' \<and> cs_LastTerminated cs = Some ''Error'')"
  define C where "C \<longleftrightarrow> (\<exists>cs \<in> set ?css. \<not> cs_Ready cs \<and> cs_Waiting cs = Some ''CrashLoopBackOff'' \<and> cs_LastTerminated cs \<noteq> Some ''Error'')"
  have "?bad = [] \<longleftrightarrow> \<not> E \<and> \<not> C" by (auto simp: filter_empty_conv E_def C_def)
  moreover have "list_ex (\<lambda>cs. cs_LastTerminated cs = Some ''Error'') ?bad \<longleftrightarrow> E" by (auto simp: list_ex_iff E_def)
  ultimately have obs: "WaitingReason (pod_observation obj pod) = (if E \<or> C then ''CrashLoopBackOff'' else [])"
    "LastTerminationReason (pod_observation obj pod) = (if E then ''Error'' else [])"
    "ContainerReady (pod_observation obj pod) = containersReady (Some pod)"
    "ContainerRunning (pod_observation obj pod) = containersReady (Some pod)"
    "Deleting (pod_observation obj pod) = (\<not> time_IsZero (p_DeletionTimestamp pod))"
    "Phase (pod_observation obj pod) = p_Phase pod" "PodReason (pod_observation obj pod) = p_Reason pod"
    "ObsEvent (pod_observation obj pod) = (case obj of Some ob \<Rightarrow> qo_Event ob | None \<Rightarrow> [])"
    by (auto simp: pod_observation_def Let_def)
  have scan: "status_scan (containersReady (Some pod), False, False) ?css = (containersReady (Some pod), C, E)"
    using containersReady_all [of pod] by (auto simp: status_scan_spec E_def C_def)
  show "formatState (Some pod) = StateOf (pod_observation obj pod)"
    unfolding formatState_def StateOf_def obs Let_def option.case scan prod.case by (simp add: state_defs)
  show "formatStatus obj (Some pod) = StatusOf (pod_observation obj pod)"
    unfolding formatStatus_def StatusOf_def obs option.case by (cases obj) (simp_all add: EventDelete_def)
qed

section \<open>Identity and labels of a converted pod\<close>

lemma formatInstance_Some:
  assumes "formatInstanceWithDeps obj (Some pod) codes = Some ins"
  shows "Label ins = source_labels obj pod (formatLableInfo (Some pod) (p_Labels pod) (rc_Environments (snd (scan_containers pod))))"
    and "SourceKey ins = go_get (Label ins) ''sourceKey''" and "SourceCluster ins = go_get (Label ins) ''sourceCluster''"
    and "Status ins = formatStatus obj (Some pod)" and "State ins = formatState (Some pod)"
    and "AppCode ins = formatAppCode pod" and "AppCode ins \<noteq> []" and "app_allowed codes (AppCode ins)"
    and "Enabled ins = formatContainerEnabled (Some pod)"
  using assms by (auto simp: formatInstanceWithDeps_def Let_def split_beta zero_inst_def split: if_splits)

definition derived_labels :: "string set" where
  "derived_labels = {LabelAosNamespace, LabelAosApp, LabelAosDrHost, LabelAosMark, LabelEnvSan,
     ''sourceCluster'', ''sourceKey''}"

lemma map_of_update_case:
  "k \<noteq> d \<Longrightarrow> map_of (case x of None \<Rightarrow> m | Some s \<Rightarrow> aupd d (f s) m) k = map_of m k"
  "k \<noteq> d \<Longrightarrow> map_of (if b then (case x of None \<Rightarrow> m | Some s \<Rightarrow> aupd d (f s) m) else m) k = map_of m k"
  by (simp_all split: option.splits)

lemma map_of_formatLableInfo:
  assumes "awf labels" and "k \<notin> derived_labels"
  shows "map_of (formatLableInfo p labels envs) k = map_of labels k"
proof -
  have "map_of (fold (\<lambda>(k, v). aupd k v) labels []) k = map_of labels k"
    using map_of_fold_aupd_awf [OF assms(1), of "[]"] by simp
  moreover have "k \<noteq> LabelAosNamespace" "k \<noteq> LabelAosApp" "k \<noteq> LabelAosDrHost" "k \<noteq> LabelAosMark" "k \<noteq> LabelEnvSan"
    using assms(2) by (simp_all add: derived_labels_def)
  ultimately show ?thesis
    unfolding formatLableInfo_def Let_def by (simp add: map_of_update_case if_distrib [of "\<lambda>m. map_of m k"])
qed

lemma map_of_source_labels:
  "k \<notin> derived_labels \<Longrightarrow> map_of (source_labels obj pod m) k = map_of m k"
  by (simp add: source_labels_def derived_labels_def Let_def split: option.splits)

lemma source_labels_key:
  "qo_UID ob \<noteq> [] \<Longrightarrow> go_get (source_labels (Some ob) pod m) ''sourceKey'' = qo_ClusterID ob @ ''/'' @ p_UID pod"
  by (simp add: source_labels_def go_get_def Let_def)

lemma identity_of_pod:
  assumes "ConvertPod (Some ob) (Some pod) codes = Some ins" and "qo_UID ob \<noteq> []"
  shows "IdentityKey ins = qo_ClusterID ob @ ''/'' @ p_UID pod"
proof -
  have "formatInstanceWithDeps (Some ob) (Some pod) codes = Some ins" using assms(1) by (simp add: ConvertPod_def)
  from formatInstance_Some(1,2) [OF this] source_labels_key [OF assms(2)]
  have "SourceKey ins = qo_ClusterID ob @ ''/'' @ p_UID pod" by simp
  then show ?thesis by (simp add: IdentityKey_def)
qed

lemma slash_split_unique:
  assumes "a @ CHR ''/'' # b = c @ CHR ''/'' # d" and "CHR ''/'' \<notin> set b" and "CHR ''/'' \<notin> set d"
  shows "a = c \<and> b = d"
proof -
  have tw: "takeWhile (\<lambda>x. x \<noteq> CHR ''/'') (rev s @ CHR ''/'' # t) = rev s" if "CHR ''/'' \<notin> set s" for s t :: string
    using that by (subst takeWhile_append2) auto
  have "rev b @ CHR ''/'' # rev a = rev d @ CHR ''/'' # rev c" using arg_cong [OF assms(1), of rev] by simp
  then have "rev b = rev d" using tw [OF assms(2), of "rev a"] tw [OF assms(3), of "rev c"] by simp
  then show ?thesis using assms(1) by simp
qed

text \<open>C32: Pods of different clusters never share an identity: if two pods popped with
  their UIDs (which contain no slash) convert to instances with the same
  identity key, they have the same cluster id and the same UID.  Moreover every
  source label outside the derived ones is carried over unchanged.\<close>

theorem ConvertPod_identity:
  assumes "ConvertPod (Some ob1) (Some pod1) codes = Some ins1"
    and "ConvertPod (Some ob2) (Some pod2) codes' = Some ins2"
    and "qo_UID ob1 = p_UID pod1" "qo_UID ob2 = p_UID pod2"
    and "p_UID pod1 \<noteq> []" "p_UID pod2 \<noteq> []" "CHR ''/'' \<notin> set (p_UID pod1)" "CHR ''/'' \<notin> set (p_UID pod2)"
    and "awf (p_Labels pod1)"
  shows "(IdentityKey ins1 = IdentityKey ins2 \<longleftrightarrow> qo_ClusterID ob1 = qo_ClusterID ob2 \<and> p_UID pod1 = p_UID pod2)
    \<and> (k \<notin> derived_labels \<longrightarrow> map_of (Label ins1) k = map_of (p_Labels pod1) k)"
proof
  have "IdentityKey ins1 = qo_ClusterID ob1 @ ''/'' @ p_UID pod1" "IdentityKey ins2 = qo_ClusterID ob2 @ ''/'' @ p_UID pod2"
    using identity_of_pod [OF assms(1)] identity_of_pod [OF assms(2)] assms(3-6) by simp_all
  then show "IdentityKey ins1 = IdentityKey ins2 \<longleftrightarrow> qo_ClusterID ob1 = qo_ClusterID ob2 \<and> p_UID pod1 = p_UID pod2"
    using slash_split_unique [of "qo_ClusterID ob1" "p_UID pod1" "qo_ClusterID ob2" "p_UID pod2"] assms(7,8) by auto
  show "k \<notin> derived_labels \<longrightarrow> map_of (Label ins1) k = map_of (p_Labels pod1) k"
    using formatInstance_Some(1) [of "Some ob1" pod1 codes ins1] assms(1,9)
    by (simp add: ConvertPod_def map_of_source_labels map_of_formatLableInfo)
qed

definition sample_pod :: pod where
  "sample_pod = \<lparr>p_Name = ''web-0'', p_Namespace = ''prod'', p_UID = ''u1'', p_Labels = [(''app-code'', ''web''), (''team'', ''x'')],
     p_ResourceVersion = ''42'', p_DeletionTimestamp = None,
     p_Containers = [], p_ContainerStatuses = [], p_Phase = ''Running'', p_Reason = [], p_PodIP = ''10.0.0.1''\<rparr>"

definition sample_queue_object :: "string \<Rightarrow> QueueObject" where
  "sample_queue_object cluster = \<lparr>qo_RType = Pods, qo_Key = ''prod/web-0'', qo_ClusterID = cluster, qo_UID = ''u1'',
     qo_Event = EventAdd, qo_CreateAt = 0\<rparr>"

lemma sample_pod_converts: "\<exists>ins. ConvertPod (Some (sample_queue_object c)) (Some sample_pod) None = Some ins"
  by (simp add: ConvertPod_def formatInstanceWithDeps_def formatAppCode_def sample_pod_def app_allowed_def
      scan_containers_def Let_def split_beta)

theorem ConvertPod_identity_witness:
  "\<exists>a b. ConvertPod (Some (sample_queue_object ''c1'')) (Some sample_pod) None = Some a
     \<and> ConvertPod (Some (sample_queue_object ''c2'')) (Some sample_pod) None = Some b
     \<and> IdentityKey a \<noteq> IdentityKey b \<and> map_of (Label a) ''team'' = Some ''x''"
proof -
  obtain a b where a: "ConvertPod (Some (sample_queue_object ''c1'')) (Some sample_pod) None = Some a"
    and b: "ConvertPod (Some (sample_queue_object ''c2'')) (Some sample_pod) None = Some b"
    using sample_pod_converts by blast
  have "''team'' \<notin> derived_labels" by (simp add: derived_labels_def label_defs)
  with ConvertPod_identity [OF a b, of "''team''"] have "IdentityKey a \<noteq> IdentityKey b \<and> map_of (Label a) ''team'' = Some ''x''"
    by (simp add: sample_pod_def sample_queue_object_def)
  with a b show ?thesis by blast
qed

section \<open>Resources\<close>

lemma ParseInt64_nat_digits: "n < 2 ^ 63 \<Longrightarrow> ParseInt64 (nat_digits n) = (int n, False)"
  using ParseInt64_int_digits [of "int n"] by (simp add: int_digits_def)

text \<open>C33: The CPU limit is right to single precision: a quantity of \<open>c\<close> whole cores is
  exact, and one printed as \<open>c\<close> millicores gives \<open>c / 1000\<close> with a relative error
  of at most one part in \<open>2 ^ 24\<close>, for every positive \<open>c\<close> below \<open>2 ^ 24\<close>.\<close>

theorem formatCpuSize_accurate:
  assumes "0 < c" and "c < 2 ^ 24"
  shows "f32_int (formatCpuSize \<lparr>q_AsInt64 = Some (int c), q_String = s\<rparr>) = int c * 2 ^ 150
    \<and> 2 ^ 24 * \<bar>f32_int (formatCpuSize \<lparr>q_AsInt64 = None, q_String = nat_digits c @ ''m''\<rparr>) * 1000 - int c * 2 ^ 150\<bar>
      \<le> int c * 2 ^ 150"
proof
  show "f32_int (formatCpuSize \<lparr>q_AsInt64 = Some (int c), q_String = s\<rparr>) = int c * 2 ^ 150"
    using assms by (simp add: formatCpuSize_def f32_of_int_exact)
  have m: "\<not> is_digit (CHR ''m'')" by (simp add: is_digit_def less_eq_char_def)
  have parse: "fst (Atoi (first_digits (nat_digits c @ ''m''))) = int c"
    using assms(2) by (simp add: first_digits_nat [OF m] Atoi_def ParseInt64_nat_digits)
  have num: "f32_num (f32_of_int (int k)) = k * 2 ^ 150" "\<not> f32_neg (f32_of_int (int k))" if "0 < k" "k < 2 ^ 24" for k :: nat
    using that f32_ratio_exact [of k False] by (simp_all add: f32_of_int_def f32_ratio_neg)
  let ?r = "formatCpuSize \<lparr>q_AsInt64 = None, q_String = nat_digits c @ ''m''\<rparr>"
  have r: "?r = f32_ratio False (c * 2 ^ 150) (1000 * 2 ^ 150)"
    using num [of c] num [of 1000] assms by (simp add: formatCpuSize_def parse f32_div_def)
  have pos: "f32_int ?r = int (f32_num ?r)" by (simp add: f32_int_def r f32_ratio_neg)
  have "2 ^ 24 * \<bar>int (f32_num ?r) * int (1000 * 2 ^ 150) - int (c * 2 ^ 150) * 2 ^ 150\<bar> \<le> int (c * 2 ^ 150) * 2 ^ 150"
    unfolding r using assms by (intro f32_ratio_error) simp_all
  then have "2 ^ 24 * \<bar>(int (f32_num ?r) * 1000 - int c * 2 ^ 150) * 2 ^ 150\<bar> \<le> (int c * 2 ^ 150) * 2 ^ 150"
    by (simp add: algebra_simps)
  then show "2 ^ 24 * \<bar>f32_int ?r * 1000 - int c * 2 ^ 150\<bar> \<le> int c * 2 ^ 150"
    unfolding pos by (simp only: abs_mult abs_power2 abs_numeral power_abs mult.assoc [symmetric]) simp
qed

theorem formatCpuSize_accurate_witness:
  "2 ^ 24 * \<bar>f32_int (formatCpuSize \<lparr>q_AsInt64 = None, q_String = ''1500m''\<rparr>) * 1000 - 1500 * 2 ^ 150\<bar> \<le> 1500 * 2 ^ 150"
proof -
  have "nat_digits 1500 @ ''m'' = ''1500m''" by code_simp
  with formatCpuSize_accurate [of 1500 "[]"] show ?thesis by simp
qed

end
