(* ===== verification/Json.thy ===== *)
theory Json
  imports Float32
begin

text \<open>
  The JSON syntax of Go's \<open>encoding/json\<close>: the text \<open>Marshal\<close> writes for a value
  (HTML characters escaped, no white space) and the grammar \<open>Unmarshal\<close> reads.
  Strings hold the characters up to U+00FF; an escape beyond them is not
  representable and is treated as a syntax error, and the decoder's nesting
  limit of 10000 levels is left out.
\<close>

datatype json = JNull | JBool bool | JNum string | JStr string | JArr "json list" | JObj "(string \<times> json) list"

section \<open>Writing\<close>

definition esc_char :: "char \<Rightarrow> string" where
  "esc_char c =
    (let n = (of_char c :: nat) in
     if c = CHR 0x22 \<or> c = CHR 0x5C then [CHR 0x5C, c]
     else if n = 8 then [CHR 0x5C, CHR ''b'']
     else if n = 12 then [CHR 0x5C, CHR ''f'']
     else if n = 10 then [CHR 0x5C, CHR ''n'']
     else if n = 13 then [CHR 0x5C, CHR ''r'']
     else if n = 9 then [CHR 0x5C, CHR ''t'']
     else if n < 32 \<or> c = CHR ''<'' \<or> c = CHR ''>'' \<or> c = CHR ''&''
     then CHR 0x5C # ''u00'' @ [hex_digit (n div 16), hex_digit (n mod 16)]
     else [c])"

definition quote :: "string \<Rightarrow> string" where
  "quote s = CHR 0x22 # concat (map esc_char s) @ [CHR 0x22]"

fun json_text :: "json \<Rightarrow> string" where
  "json_text JNull = ''null''"
| "json_text (JBool b) = (if b then ''true'' else ''false'')"
| "json_text (JNum t) = t"
| "json_text (JStr s) = quote s"
| "json_text (JArr xs) = CHR ''['' # join '','' (map json_text xs) @ '']''"
| "json_text (JObj ms) = CHR ''{'' # join '','' (map (\<lambda>(k, v). quote k @ CHR '':'' # json_text v) ms) @ ''}''"

section \<open>Reading\<close>

definition json_space :: "char \<Rightarrow> bool" where
  "json_space c = (c \<in> {CHR '' '', char_of (9 :: nat), char_of (10 :: nat), char_of (13 :: nat)})"

definition skip_ws :: "string \<Rightarrow> string" where
  "skip_ws s = dropWhile json_space s"

definition hex_val :: "char \<Rightarrow> nat option" where
  "hex_val c =
    (let n = (of_char c :: nat) in
     if 48 \<le> n \<and> n \<le> 57 then Some (n - 48)
     else if 97 \<le> n \<and> n \<le> 102 then Some (n - 87)
     else if 65 \<le> n \<and> n \<le> 70 then Some (n - 55)
     else None)"

fun hex4 :: "string \<Rightarrow> (char \<times> string) option" where
  "hex4 (a # b # c # d # r) =
    (case (hex_val a, hex_val b, hex_val c, hex_val d) of
       (Some a, Some b, Some c, Some d) \<Rightarrow>
         (let n = ((a * 16 + b) * 16 + c) * 16 + d in if n < 256 then Some (char_of n, r) else None)
     | _ \<Rightarrow> None)"
| "hex4 s = None"

definition simple_escape :: "char \<Rightarrow> char option" where
  "simple_escape e =
    (if e = CHR 0x22 \<or> e = CHR 0x5C \<or> e = CHR ''/'' then Some e
     else if e = CHR ''b'' then Some (char_of (8 :: nat))
     else if e = CHR ''f'' then Some (char_of (12 :: nat))
     else if e = CHR ''n'' then Some (char_of (10 :: nat))
     else if e = CHR ''r'' then Some (char_of (13 :: nat))
     else if e = CHR ''t'' then Some (char_of (9 :: nat))
     else None)"

text \<open>One step of a string: the character after the escapes, if any.\<close>

definition scan_char :: "string \<Rightarrow> (char \<times> string) option" where
  "scan_char s = (case s of
      [] \<Rightarrow> None
    | c # r \<Rightarrow>
       if c = CHR 0x5C then
         (case r of [] \<Rightarrow> None
          | e # r' \<Rightarrow> if e = CHR ''u'' then hex4 r'
                      else (case simple_escape e of Some c' \<Rightarrow> Some (c', r') | None \<Rightarrow> None))
       else if (of_char c :: nat) < 32 then None
       else Some (c, r))"

text \<open>The string after an opening quote, with fuel for the characters.\<close>

fun scan_string :: "nat \<Rightarrow> string \<Rightarrow> (string \<times> string) option" where
  "scan_string 0 s = None"
| "scan_string (Suc n) s = (case s of
      [] \<Rightarrow> None
    | c # r \<Rightarrow>
       if c = CHR 0x22 then Some ([], r)
       else (case scan_char s of
          None \<Rightarrow> None
        | Some (c', r') \<Rightarrow> (case scan_string n r' of None \<Rightarrow> None | Some (t, r'') \<Rightarrow> Some (c' # t, r''))))"

definition scan_digits :: "string \<Rightarrow> (string \<times> string) option" where
  "scan_digits s = (let ds = takeWhile is_digit s in if ds = [] then None else Some (ds, drop (length ds) s))"

definition scan_int :: "string \<Rightarrow> (string \<times> string) option" where
  "scan_int s = (case s of
      [] \<Rightarrow> None
    | c # r \<Rightarrow> if c = CHR ''0'' then Some (''0'', r) else scan_digits s)"

definition scan_frac :: "string \<Rightarrow> (string \<times> string) option" where
  "scan_frac s = (case s of
      [] \<Rightarrow> Some ([], [])
    | c # r \<Rightarrow> if c = CHR ''.'' then (case scan_digits r of None \<Rightarrow> None | Some (ds, r') \<Rightarrow> Some (c # ds, r'))
               else Some ([], s))"

definition scan_exp :: "string \<Rightarrow> (string \<times> string) option" where
  "scan_exp s = (case s of
      [] \<Rightarrow> Some ([], [])
    | c # r \<Rightarrow>
       if c = CHR ''e'' \<or> c = CHR ''E'' then
         (case r of
            [] \<Rightarrow> None
          | g # r' \<Rightarrow>
             if g = CHR ''-'' \<or> g = CHR ''+''
             then (case scan_digits r' of None \<Rightarrow> None | Some (ds, r'') \<Rightarrow> Some (c # g # ds, r''))
             else (case scan_digits r of None \<Rightarrow> None | Some (ds, r'') \<Rightarrow> Some (c # ds, r'')))
       else Some ([], s))"

definition scan_number :: "string \<Rightarrow> (string \<times> string) option" where
  "scan_number s =
    (let sg = (if has_prefix s ''-'' then ''-'' else []) in
     case scan_int (drop (length sg) s) of None \<Rightarrow> None
     | Some (ip, r1) \<Rightarrow> (case scan_frac r1 of None \<Rightarrow> None
        | Some (fp, r2) \<Rightarrow> (case scan_exp r2 of None \<Rightarrow> None
           | Some (ex, r3) \<Rightarrow> Some (sg @ ip @ fp @ ex, r3))))"

fun parse_value :: "nat \<Rightarrow> string \<Rightarrow> (json \<times> string) option"
  and parse_elems :: "nat \<Rightarrow> string \<Rightarrow> (json list \<times> string) option"
  and parse_members :: "nat \<Rightarrow> string \<Rightarrow> ((string \<times> json) list \<times> string) option" where
  "parse_value 0 s = None"
| "parse_value (Suc n) s = (case skip_ws s of
      [] \<Rightarrow> None
    | c # r \<Rightarrow>
       if c = CHR 0x22 then
         (case scan_string (length r) r of None \<Rightarrow> None | Some (t, r') \<Rightarrow> Some (JStr t, r'))
       else if c = CHR ''['' then
         (case skip_ws r of
            [] \<Rightarrow> None
          | d # r' \<Rightarrow> if d = CHR '']'' then Some (JArr [], r')
             else (case parse_elems n (d # r') of None \<Rightarrow> None | Some (xs, r'') \<Rightarrow> Some (JArr xs, r'')))
       else if c = CHR ''{'' then
         (case skip_ws r of
            [] \<Rightarrow> None
          | d # r' \<Rightarrow> if d = CHR ''}'' then Some (JObj [], r')
             else (case parse_members n (d # r') of None \<Rightarrow> None | Some (ms, r'') \<Rightarrow> Some (JObj ms, r'')))
       else if has_prefix (c # r) ''null'' then Some (JNull, drop 3 r)
       else if has_prefix (c # r) ''true'' then Some (JBool True, drop 3 r)
       else if has_prefix (c # r) ''false'' then Some (JBool False, drop 4 r)
       else (case scan_number (c # r) of None \<Rightarrow> None | Some (t, r') \<Rightarrow> Some (JNum t, r')))"
| "parse_elems 0 s = None"
| "parse_elems (Suc n) s = (case parse_value n s of
      None \<Rightarrow> None
    | Some (x, r) \<Rightarrow> (case skip_ws r of
        [] \<Rightarrow> None
      | d # r' \<Rightarrow>
         if d = CHR '']'' then Some ([x], r')
         else if d = CHR '','' then
           (case parse_elems n r' of None \<Rightarrow> None | Some (xs, r'') \<Rightarrow> Some (x # xs, r''))
         else None))"
| "parse_members 0 s = None"
| "parse_members (Suc n) s = (case skip_ws s of
      [] \<Rightarrow> None
    | q # r0 \<Rightarrow>
       if q \<noteq> CHR 0x22 then None
       else (case scan_string (length r0) r0 of
          None \<Rightarrow> None
        | Some (k, r1) \<Rightarrow> (case skip_ws r1 of
            [] \<Rightarrow> None
          | d # r2 \<Rightarrow>
             if d \<noteq> CHR '':'' then None
             else (case parse_value n r2 of
                None \<Rightarrow> None
              | Some (v, r3) \<Rightarrow> (case skip_ws r3 of
                  [] \<Rightarrow> None
                | e # r4 \<Rightarrow>
                   if e = CHR ''}'' then Some ([(k, v)], r4)
                   else if e = CHR '','' then
                     (case parse_members n r4 of None \<Rightarrow> None | Some (ms, r5) \<Rightarrow> Some ((k, v) # ms, r5))
                   else None)))))"

definition parse_json :: "string \<Rightarrow> json option" where
  "parse_json s = (case parse_value (length s + 1) s of
      Some (j, r) \<Rightarrow> if skip_ws r = [] then Some j else None
    | None \<Rightarrow> None)"

section \<open>Reading back what was written\<close>

lemma hex_val_digit: "n < 16 \<Longrightarrow> hex_val (hex_digit n) = Some n"
  by (auto simp: hex_val_def hex_digit_def Let_def)

lemma control_chars:
  "char_of (8 :: nat) = CHR 0x08" "char_of (9 :: nat) = CHR 0x09" "char_of (10 :: nat) = CHR 0x0A"
  "char_of (12 :: nat) = CHR 0x0C" "char_of (13 :: nat) = CHR 0x0D"
  by code_simp+

definition two_char_escapes :: "char list" where
  "two_char_escapes = [CHR 0x22, CHR 0x5C, CHR 0x08, CHR 0x09, CHR 0x0A, CHR 0x0C, CHR 0x0D]"

lemma scan_char_two: "c \<in> set two_char_escapes \<Longrightarrow> scan_char (esc_char c @ t) = Some (c, t)"
proof -
  have "list_all (\<lambda>c. \<exists>e. esc_char c = [CHR 0x5C, e] \<and> e \<noteq> CHR ''u'' \<and> simple_escape e = Some c) two_char_escapes"
    by (simp add: two_char_escapes_def esc_char_def simple_escape_def control_chars Let_def)
  moreover assume "c \<in> set two_char_escapes"
  ultimately obtain e where "esc_char c = [CHR 0x5C, e]" "e \<noteq> CHR ''u''" "simple_escape e = Some c"
    by (auto simp: list_all_iff)
  then show ?thesis by (simp add: scan_char_def)
qed

lemma scan_char_hex:
  assumes "esc_char c = CHR 0x5C # ''u00'' @ [hex_digit (of_char c div 16), hex_digit (of_char c mod 16)]"
  shows "scan_char (esc_char c @ t) = Some (c, t)"
proof -
  define n :: nat where "n = of_char c"
  have n: "n < 256" "char_of n = c" by (simp_all add: n_def)
  have n16: "n div 16 < 16" "n mod 16 < 16" using n(1) by (simp_all add: div_less_iff_less_mult)
  have "hex_val (CHR ''0'') = Some 0" by (simp add: hex_val_def)
  then have "hex4 (CHR ''0'' # CHR ''0'' # hex_digit (n div 16) # hex_digit (n mod 16) # t) = Some (c, t)"
    using n n16 by (simp add: hex_val_digit)
  then show ?thesis using assms by (simp add: scan_char_def n_def del: hex4.simps)
qed

lemma esc_char_cases:
  "c \<in> set two_char_escapes
   \<or> esc_char c = CHR 0x5C # ''u00'' @ [hex_digit (of_char c div 16), hex_digit (of_char c mod 16)]
   \<or> esc_char c = [c] \<and> \<not> (of_char c :: nat) < 32 \<and> c \<noteq> CHR 0x5C"
proof -
  define n :: nat where "n = of_char c"
  have k: "n = k \<Longrightarrow> c = char_of k" for k by (auto simp: n_def)
  show ?thesis
  proof (cases "c = CHR 0x22 \<or> c = CHR 0x5C \<or> n = 8 \<or> n = 12 \<or> n = 10 \<or> n = 13 \<or> n = 9")
    case True
    then have "c \<in> set two_char_escapes"
      using k [of 8] k [of 12] k [of 10] k [of 13] k [of 9] unfolding control_chars two_char_escapes_def by auto
    then show ?thesis ..
  next
    case False
    then show ?thesis unfolding esc_char_def n_def [symmetric] Let_def by auto
  qed
qed

lemma scan_char_esc: "scan_char (esc_char c @ t) = Some (c, t)"
  using esc_char_cases [of c] scan_char_two [of c t] scan_char_hex [of c t] by (auto simp: scan_char_def)

lemma esc_char_Cons: "\<exists>a r. esc_char c = a # r \<and> (a = CHR 0x22 \<longrightarrow> False)"
  by (auto simp: esc_char_def Let_def)

lemma scan_string_quote:
  "length s < n \<Longrightarrow> scan_string n (concat (map esc_char s) @ CHR 0x22 # t) = Some (s, t)"
proof (induction s arbitrary: n)
  case Nil
  then show ?case by (cases n) simp_all
next
  case (Cons c s)
  obtain m where n: "n = Suc m" "length s < m" using Cons.prems by (cases n) simp_all
  obtain a r where a: "esc_char c = a # r" "a \<noteq> CHR 0x22" using esc_char_Cons [of c] by blast
  have "scan_char ((a # r) @ concat (map esc_char s) @ CHR 0x22 # t) = Some (c, concat (map esc_char s) @ CHR 0x22 # t)"
    unfolding a(1) [symmetric] by (rule scan_char_esc)
  then show ?case using n a Cons.IH [of m] by simp
qed

lemma length_esc: "length s \<le> length (concat (map esc_char s))"
proof (induction s)
  case (Cons c s)
  obtain a r where "esc_char c = a # r" using esc_char_Cons [of c] by blast
  with Cons show ?case by simp
qed simp

lemma scan_string_tail:
  "scan_string (length (concat (map esc_char s) @ CHR 0x22 # t)) (concat (map esc_char s) @ CHR 0x22 # t) = Some (s, t)"
  using length_esc [of s] by (intro scan_string_quote) simp

subsection \<open>Numbers\<close>

definition num_end :: "string \<Rightarrow> bool" where
  "num_end s = (case s of [] \<Rightarrow> True | c # _ \<Rightarrow> \<not> is_digit c \<and> c \<noteq> CHR ''.'' \<and> c \<noteq> CHR ''e'' \<and> c \<noteq> CHR ''E'')"

definition number_text :: "string \<Rightarrow> bool" where
  "number_text t \<longleftrightarrow> t \<noteq> [] \<and> (hd t = CHR ''-'' \<or> is_digit (hd t))
     \<and> (\<forall>r. num_end r \<longrightarrow> scan_number (t @ r) = Some (t, r))"

lemma scan_digits_append:
  assumes "list_all is_digit ds" "ds \<noteq> []" and "r = [] \<or> \<not> is_digit (hd r)"
  shows "scan_digits (ds @ r) = Some (ds, r)"
proof -
  have "takeWhile is_digit (ds @ r) = ds"
    using assms by (cases r) (auto simp: takeWhile_append2 list_all_iff)
  then show ?thesis using assms(2) by (simp add: scan_digits_def)
qed

text \<open>Sign, integer part, fraction and exponent of a number.\<close>

definition int_part :: "string \<Rightarrow> bool" where
  "int_part s \<longleftrightarrow> s = ''0'' \<or> list_all is_digit s \<and> s \<noteq> [] \<and> hd s \<noteq> CHR ''0''"

definition frac_part :: "string \<Rightarrow> bool" where
  "frac_part s \<longleftrightarrow> s = [] \<or> (\<exists>ds. s = CHR ''.'' # ds \<and> list_all is_digit ds \<and> ds \<noteq> [])"

definition exp_part :: "string \<Rightarrow> bool" where
  "exp_part s \<longleftrightarrow> s = [] \<or> (\<exists>g ds. s = CHR ''e'' # g # ds \<and> g \<in> {CHR ''-'', CHR ''+''} \<and> list_all is_digit ds \<and> ds \<noteq> [])"

lemma digit_marks [simp]:
  "\<not> is_digit (CHR ''-'')" "\<not> is_digit (CHR ''.'')" "\<not> is_digit (CHR ''e'')" "\<not> is_digit (CHR ''E'')" "is_digit (CHR ''0'')"
  by (simp_all add: is_digit_def less_eq_char_def)

lemma scan_digits_all: "list_all is_digit ds \<Longrightarrow> ds \<noteq> [] \<Longrightarrow> scan_digits ds = Some (ds, [])"
  using scan_digits_append [of ds "[]"] by simp

lemma scan_exp_part: "exp_part ex \<Longrightarrow> num_end r \<Longrightarrow> scan_exp (ex @ r) = Some (ex, r)"
  by (auto simp: exp_part_def scan_exp_def num_end_def scan_digits_append scan_digits_all split: list.splits)

lemma scan_frac_part:
  assumes "frac_part fp" and "exp_part ex" and "num_end r"
  shows "scan_frac (fp @ ex @ r) = Some (fp, ex @ r)"
proof -
  have "ex @ r = [] \<or> \<not> is_digit (hd (ex @ r)) \<and> hd (ex @ r) \<noteq> CHR ''.''"
    using assms(2,3) by (cases r) (auto simp: exp_part_def num_end_def)
  then show ?thesis using assms(1) by (auto simp: frac_part_def scan_frac_def scan_digits_append scan_digits_all split: list.splits)
qed

lemma scan_int_part:
  assumes "int_part ip" and "frac_part fp" and "exp_part ex" and "num_end r"
  shows "scan_int (ip @ fp @ ex @ r) = Some (ip, fp @ ex @ r)"
proof -
  have "fp @ ex @ r = [] \<or> \<not> is_digit (hd (fp @ ex @ r))"
    using assms(2-4) by (cases r) (auto simp: frac_part_def exp_part_def num_end_def)
  then have "ip \<noteq> ''0'' \<Longrightarrow> scan_digits (ip @ fp @ ex @ r) = Some (ip, fp @ ex @ r)"
    using assms(1) by (intro scan_digits_append) (auto simp: int_part_def)
  then show ?thesis using assms(1) by (cases ip) (auto simp: int_part_def scan_int_def)
qed

lemma number_text_parts:
  assumes "int_part ip" and "frac_part fp" and "exp_part ex" and sg: "sg = [] \<or> sg = ''-''"
  shows "number_text (sg @ ip @ fp @ ex)"
proof -
  have d: "ip \<noteq> []" "is_digit (hd ip)" using assms(1) by (cases ip; auto simp: int_part_def)+
  then have "hd ip \<noteq> CHR ''-''" by auto
  then have pre: "has_prefix (sg @ ip @ t) ''-'' \<longleftrightarrow> sg = ''-''" for t using sg d(1) by (cases ip) auto
  have "scan_number ((sg @ ip @ fp @ ex) @ r) = Some (sg @ ip @ fp @ ex, r)" if "num_end r" for r
    using pre [of "fp @ ex @ r"] sg scan_int_part [OF assms(1-3) that] scan_frac_part [OF assms(2,3) that]
      scan_exp_part [OF assms(3) that]
    by (auto simp: scan_number_def Let_def)
  then show ?thesis using sg d by (auto simp: number_text_def)
qed

lemma int_part_nat_digits: "int_part (nat_digits n)"
proof -
  have "hd (nat_digits n) \<noteq> CHR ''0''" if "0 < n" using that
  proof (induction n rule: nat_digits.induct)
    case (1 n)
    then show ?case
      by (cases "n < 10") (auto simp: nat_digits.simps [of n] hd_append nat_digits_simps(3) dest: arg_cong [where f = "of_char :: char \<Rightarrow> nat"])
  qed
  moreover have "nat_digits 0 = ''0''" by code_simp
  ultimately show ?thesis using nat_digits_simps(2,3) [of n] by (cases "n = 0") (auto simp: int_part_def)
qed

lemma number_text_int: "number_text (int_digits i)"
  using number_text_parts [of "nat_digits (nat \<bar>i\<bar>)" "[]" "[]" "if i < 0 then ''-'' else []"] int_part_nat_digits
  by (auto simp: int_digits_def frac_part_def exp_part_def)

lemma int_part_digit: "is_digit d \<Longrightarrow> int_part [d]"
  by (auto simp: int_part_def)

lemma fixed_text_parts: "\<exists>ip fp. fixed_text c p = ip @ fp \<and> int_part ip \<and> frac_part fp"
proof (cases "p \<le> 0")
  case True
  then show ?thesis using int_part_nat_digits [of "c * 10 ^ nat (- p)"]
    by (intro exI [of _ "nat_digits (c * 10 ^ nat (- p))"] exI [of _ "[]"]) (simp add: fixed_text_def frac_part_def)
next
  case False
  define z where "z = nat p + 1 - length (nat_digits c)"
  define ds where "ds = replicate z (CHR ''0'') @ nat_digits c"
  define k where "k = length ds - nat p"
  have t: "fixed_text c p = take k ds @ CHR ''.'' # drop k ds"
    unfolding fixed_text_def Let_def z_def [symmetric] ds_def [symmetric] k_def [symmetric] using False by simp
  have dig: "list_all is_digit ds" using nat_digits_simps(2) [of c] by (auto simp: ds_def list_all_iff)
  have len: "nat p < length ds" by (auto simp: ds_def z_def)
  have "int_part (take k ds)"
  proof (cases z)
    case 0
    then have ds: "ds = nat_digits c" "nat p < length (nat_digits c)" by (auto simp: ds_def z_def)
    moreover have "nat_digits c \<noteq> ''0''" using ds(2) False by auto
    ultimately have "hd ds \<noteq> CHR ''0''" using int_part_nat_digits [of c] by (auto simp: int_part_def)
    moreover have "0 < k" using len by (simp add: k_def)
    ultimately show ?thesis using dig nat_digits_simps(3) [of c] ds(1)
      by (auto simp: int_part_def list_all_iff dest: in_set_takeD)
  next
    case (Suc z')
    then have "k = 1" by (auto simp: k_def ds_def z_def)
    then show ?thesis using Suc by (simp add: int_part_def ds_def)
  qed
  moreover have "frac_part (CHR ''.'' # drop k ds)"
    using dig len False by (auto simp: frac_part_def list_all_iff k_def dest: in_set_dropD)
  ultimately show ?thesis unfolding t by blast
qed

lemma exponent_text_parts:
  "\<exists>ip fp ex. exponent_text c p = ip @ fp @ ex \<and> int_part ip \<and> frac_part fp \<and> exp_part ex"
proof -
  define ds where "ds = nat_digits c"
  define x where "x = int (length ds) - 1 - p"
  obtain d dt where ds: "ds = d # dt" using nat_digits_simps(3) [of c] by (cases ds) (auto simp: ds_def)
  have dig: "is_digit d" "list_all is_digit dt" using nat_digits_simps(2) [of c] ds by (simp_all add: ds_def)
  have "exponent_text c p = [d] @ (if dt = [] then [] else CHR ''.'' # dt)
      @ CHR ''e'' # (if x < 0 then CHR ''-'' else CHR ''+'') # nat_digits (nat \<bar>x\<bar>)"
    unfolding exponent_text_def Let_def ds_def [symmetric] x_def [symmetric] using ds by simp
  moreover have "frac_part (if dt = [] then [] else CHR ''.'' # dt)" using dig by (auto simp: frac_part_def)
  moreover have "exp_part (CHR ''e'' # (if x < 0 then CHR ''-'' else CHR ''+'') # nat_digits (nat \<bar>x\<bar>))"
    using nat_digits_simps(2,3) [of "nat \<bar>x\<bar>"] by (auto simp: exp_part_def)
  ultimately show ?thesis using int_part_digit [OF dig(1)] by blast
qed

lemma f32_text_number: "number_text (f32_text a)"
proof -
  define sg where "sg = (if f32_neg a then ''-'' else [])"
  have sg: "sg = [] \<or> sg = ''-''" by (simp add: sg_def)
  have e: "exp_part []" by (simp add: exp_part_def)
  have z: "number_text (sg @ ''0'')"
    using number_text_parts [of "''0''" "[]" "[]" sg] sg by (simp add: int_part_def frac_part_def exp_part_def)
  have x: "number_text (sg @ exponent_text c p)" for c p
    using exponent_text_parts [of c p] number_text_parts [OF _ _ _ sg] by auto
  have f: "number_text (sg @ fixed_text c p)" for c p
    using fixed_text_parts [of c p] number_text_parts [OF _ _ e sg] by auto
  show ?thesis
    unfolding f32_text_def Let_def sg_def [symmetric] split_beta using z x f
    by (cases "f32_abs a = 0"; cases "f32_abs a < dec_pattern 1 (- 6) \<or> dec_pattern 1 21 \<le> f32_abs a") (simp_all only: simp_thms if_True if_False)
qed

subsection \<open>Values\<close>

fun json_wf :: "json \<Rightarrow> bool" where
  "json_wf (JNum t) = number_text t"
| "json_wf (JArr xs) = list_all json_wf xs"
| "json_wf (JObj ms) = list_all (\<lambda>(k, v). json_wf v) ms"
| "json_wf j = True"

fun jsize :: "json \<Rightarrow> nat" where
  "jsize (JArr xs) = 1 + sum_list (map (\<lambda>x. 1 + jsize x) xs)"
| "jsize (JObj ms) = 1 + sum_list (map (\<lambda>(k, v). 1 + jsize v) ms)"
| "jsize j = 1"

lemma skip_ws_id: "s \<noteq> [] \<Longrightarrow> \<not> json_space (hd s) \<Longrightarrow> skip_ws s = s"
  by (cases s) (simp_all add: skip_ws_def)

lemma not_space [simp]:
  "\<not> json_space (CHR 0x22)" "\<not> json_space (CHR ''['')" "\<not> json_space (CHR ''{'')" "\<not> json_space (CHR '']'')"
  "\<not> json_space (CHR ''}'')" "\<not> json_space (CHR '','')" "\<not> json_space (CHR '':'')" "\<not> json_space (CHR ''-'')"
  "\<not> json_space (CHR ''n'')" "\<not> json_space (CHR ''t'')" "\<not> json_space (CHR ''f'')"
  by (simp_all add: json_space_def control_chars)

lemma digit_not_space: "is_digit c \<Longrightarrow> \<not> json_space c"
  by (auto simp: is_digit_def json_space_def control_chars less_eq_char_def)

text \<open>The first character of a value's text tells its kind.\<close>

lemma json_text_hd:
  assumes "json_wf j"
  shows "json_text j \<noteq> [] \<and> \<not> json_space (hd (json_text j)) \<and> hd (json_text j) \<notin> {CHR '']'', CHR ''}''}"
proof (cases j)
  case (JNum t)
  then have "t \<noteq> []" "hd t = CHR ''-'' \<or> is_digit (hd t)" using assms by (simp_all add: number_text_def)
  moreover have "\<not> is_digit (CHR '']'')" "\<not> is_digit (CHR ''}'')" by (simp_all add: is_digit_def less_eq_char_def)
  ultimately show ?thesis using JNum digit_not_space by auto
qed (simp_all add: quote_def)

lemma parse_number:
  assumes "number_text t" and "num_end r"
  shows "parse_value (Suc n) (t @ r) = Some (JNum t, r)"
proof -
  obtain c u where t: "t = c # u" using assms(1) by (cases t) (simp_all add: number_text_def)
  then have c: "c = CHR ''-'' \<or> is_digit c" and s: "scan_number (t @ r) = Some (t, r)"
    using assms by (simp_all add: number_text_def)
  have "c \<notin> {CHR 0x22, CHR ''['', CHR ''{'', CHR ''n'', CHR ''t'', CHR ''f''}"
    using c by (auto simp: is_digit_def less_eq_char_def)
  moreover have "\<not> json_space c" using c digit_not_space by auto
  ultimately show ?thesis using t s by (simp add: skip_ws_def)
qed

lemma join_Cons: "join sep (x # xs) = x @ (if xs = [] then [] else sep @ join sep xs)"
  by (cases xs) simp_all

lemma num_end_marks [simp]: "num_end (CHR '','' # r)" "num_end (CHR '']'' # r)" "num_end (CHR ''}'' # r)" "num_end []"
  by (simp_all add: num_end_def is_digit_def less_eq_char_def)

definition reads_back :: "json \<Rightarrow> bool" where
  "reads_back j \<longleftrightarrow> (\<forall>n r. jsize j \<le> n \<longrightarrow> num_end r \<longrightarrow> parse_value n (json_text j @ r) = Some (j, r))"

lemma jsize_pos: "1 \<le> jsize j"
  by (cases j) simp_all

lemma reads_backI:
  assumes "\<And>n r. jsize j \<le> Suc n \<Longrightarrow> num_end r \<Longrightarrow> parse_value (Suc n) (json_text j @ r) = Some (j, r)"
  shows "reads_back j"
  unfolding reads_back_def
proof (intro allI impI)
  fix n r assume "jsize j \<le> n" "num_end r"
  moreover from this obtain m where "n = Suc m" using jsize_pos [of j] by (cases n) simp_all
  ultimately show "parse_value n (json_text j @ r) = Some (j, r)" using assms by blast
qed

lemma parse_elems_text:
  assumes "\<And>x. x \<in> set xs \<Longrightarrow> reads_back x" and "xs \<noteq> []" and "sum_list (map (\<lambda>x. 1 + jsize x) xs) \<le> n"
  shows "parse_elems n (join '','' (map json_text xs) @ CHR '']'' # r) = Some (xs, r)"
  using assms
proof (induction xs arbitrary: n)
  case (Cons x xs)
  obtain m where n: "n = Suc m" "jsize x + sum_list (map (\<lambda>x. 1 + jsize x) xs) \<le> m" using Cons.prems(3) by (cases n) simp_all
  have x: "num_end r' \<Longrightarrow> parse_value m (json_text x @ r') = Some (x, r')" for r'
    using Cons.prems(1) [of x] n by (simp add: reads_back_def)
  show ?case
  proof (cases "xs = []")
    case True
    then show ?thesis using x [of "CHR '']'' # r"] n by (simp add: skip_ws_def)
  next
    case False
    have "parse_elems m (join '','' (map json_text xs) @ CHR '']'' # r) = Some (xs, r)"
      using Cons.IH [of m] Cons.prems(1) False n by simp
    then show ?thesis
      using x [of "CHR '','' # join '','' (map json_text xs) @ CHR '']'' # r"] n False
      by (simp add: join_Cons skip_ws_def)
  qed
qed simp

lemma parse_members_text:
  assumes "\<And>k v. (k, v) \<in> set ms \<Longrightarrow> reads_back v" and "ms \<noteq> []" and "sum_list (map (\<lambda>(k, v). 1 + jsize v) ms) \<le> n"
  shows "parse_members n (join '','' (map (\<lambda>(k, v). quote k @ CHR '':'' # json_text v) ms) @ CHR ''}'' # r) = Some (ms, r)"
  using assms
proof (induction ms arbitrary: n)
  case (Cons kv ms)
  obtain k v where kv: "kv = (k, v)" by (cases kv)
  obtain m where n: "n = Suc m" "jsize v + sum_list (map (\<lambda>(k, v). 1 + jsize v) ms) \<le> m"
    using Cons.prems(3) kv by (cases n) simp_all
  have v: "num_end r' \<Longrightarrow> parse_value m (json_text v @ r') = Some (v, r')" for r'
    using Cons.prems(1) [of k v] n kv by (simp add: reads_back_def)
  have q: "skip_ws (quote k @ t) = CHR 0x22 # concat (map esc_char k) @ CHR 0x22 # t"
    "skip_ws (CHR '':'' # t) = CHR '':'' # t" for t
    by (simp_all add: quote_def skip_ws_def)
  show ?case
  proof (cases "ms = []")
    case True
    then show ?thesis using v [of "CHR ''}'' # r"] n kv q scan_string_tail [of k "CHR '':'' # json_text v @ CHR ''}'' # r"]
      by (simp add: skip_ws_def)
  next
    case False
    let ?t = "join '','' (map (\<lambda>(k, v). quote k @ CHR '':'' # json_text v) ms) @ CHR ''}'' # r"
    have "parse_members m ?t = Some (ms, r)"
      using Cons.IH [OF _ False, of m] Cons.prems(1) n by (auto simp del: parse_members.simps)
    then show ?thesis
      using v [of "CHR '','' # ?t"] n kv q scan_string_tail [of k "CHR '':'' # json_text v @ CHR '','' # ?t"] False
      by (simp add: join_Cons skip_ws_def)
  qed
qed simp

lemma json_reads_back: "json_wf j \<Longrightarrow> reads_back j"
proof (induction j)
  case (JNum t)
  then show ?case using parse_number by (intro reads_backI) simp
next
  case (JStr s)
  have "parse_value (Suc n) (quote s @ r) = Some (JStr s, r)" for n r
    using scan_string_tail [of s r] by (simp add: quote_def skip_ws_def)
  then show ?case by (intro reads_backI) simp
next
  case (JArr xs)
  have IH: "x \<in> set xs \<Longrightarrow> reads_back x" for x using JArr by (simp add: list_all_iff)
  have "parse_value (Suc n) (json_text (JArr xs) @ r) = Some (JArr xs, r)"
    if "sum_list (map (\<lambda>x. 1 + jsize x) xs) \<le> n" for n r
  proof (cases xs)
    case Nil
    then show ?thesis by (simp add: skip_ws_def)
  next
    case (Cons x ys)
    have hd: "json_text x \<noteq> []" "\<not> json_space (hd (json_text x))" "hd (json_text x) \<noteq> CHR '']''"
      using json_text_hd [of x] JArr.prems Cons by simp_all
    let ?t = "join '','' (map json_text xs) @ CHR '']'' # r"
    obtain d u where t: "?t = d # u" "\<not> json_space d" "d \<noteq> CHR '']''"
      using hd Cons by (cases "json_text x") (auto simp: join_Cons)
    have "parse_elems n ?t = Some (xs, r)" using IH Cons that by (intro parse_elems_text) auto
    then show ?thesis using t by (simp add: skip_ws_def)
  qed
  then show ?case by (intro reads_backI) (simp del: json_text.simps parse_value.simps)
next
  case (JObj ms)
  have IH: "(k, v) \<in> set ms \<Longrightarrow> reads_back v" for k v using JObj by (fastforce simp: list_all_iff)
  have "parse_value (Suc n) (json_text (JObj ms) @ r) = Some (JObj ms, r)"
    if "sum_list (map (\<lambda>(k, v). 1 + jsize v) ms) \<le> n" for n r
  proof (cases ms)
    case Nil
    then show ?thesis by (simp add: skip_ws_def)
  next
    case (Cons kv ns)
    let ?t = "join '','' (map (\<lambda>(k, v). quote k @ CHR '':'' # json_text v) ms) @ CHR ''}'' # r"
    obtain u where t: "?t = CHR 0x22 # u" using Cons by (cases kv) (simp add: join_Cons quote_def)
    have "parse_members n ?t = Some (ms, r)" using IH Cons that by (intro parse_members_text) auto
    then show ?thesis using t by (simp add: skip_ws_def)
  qed
  then show ?case by (intro reads_backI) (simp del: json_text.simps parse_value.simps)
qed (intro reads_backI; simp add: skip_ws_def)+


lemma length_join: "xs \<noteq> [] \<Longrightarrow> length (join '','' xs) + 1 = sum_list (map (\<lambda>x. 1 + length x) xs)"
  by (induction xs) (auto simp: join_Cons)

lemma jsize_length: "json_wf j \<Longrightarrow> jsize j \<le> length (json_text j)"
proof (induction j)
  case (JNum t)
  then show ?case by (cases t) (simp_all add: number_text_def)
next
  case (JArr xs)
  have "sum_list (map (\<lambda>x. 1 + jsize x) xs) \<le> sum_list (map (\<lambda>x. 1 + length (json_text x)) xs)"
    using JArr by (intro sum_list_mono) (auto simp: list_all_iff)
  moreover have "xs \<noteq> [] \<Longrightarrow> length (join '','' (map json_text xs)) + 1 = sum_list (map (\<lambda>x. 1 + length (json_text x)) xs)"
    using length_join [of "map json_text xs"] by (simp add: comp_def)
  ultimately show ?case by (cases "xs = []") simp_all
next
  case (JObj ms)
  have "sum_list (map (\<lambda>(k, v). 1 + jsize v) ms) \<le> sum_list (map (\<lambda>(k, v). 1 + length (quote k @ CHR '':'' # json_text v)) ms)"
    using JObj by (intro sum_list_mono) (force simp: list_all_iff)
  moreover have "ms \<noteq> [] \<Longrightarrow> length (join '','' (map (\<lambda>(k, v). quote k @ CHR '':'' # json_text v) ms)) + 1
      = sum_list (map (\<lambda>(k, v). 1 + length (quote k @ CHR '':'' # json_text v)) ms)"
    using length_join [of "map (\<lambda>(k, v). quote k @ CHR '':'' # json_text v) ms"]
    by (simp add: comp_def case_prod_unfold)
  ultimately show ?case by (cases "ms = []") simp_all
qed (simp_all add: quote_def)

lemma parse_json_text:
  assumes "json_wf j"
  shows "parse_json (json_text j) = Some j"
proof -
  have "jsize j \<le> length (json_text j) + 1" using jsize_length [OF assms] by simp
  then have "parse_value (length (json_text j) + 1) (json_text j @ []) = Some (j, [])"
    using json_reads_back [OF assms] unfolding reads_back_def by (blast intro: num_end_marks)
  then show ?thesis unfolding parse_json_def append_Nil2 by (simp only: option.case prod.case) (simp add: skip_ws_def)
qed

end
