(* ===== verification/Canonical_Payload.thy ===== *)
theory Canonical_Payload
  imports Instance_Model Json
begin

text \<open>
  The complete instance payload stored in a metadata value,
  src/internal/domain/instance/metadata.go, and the reconcile comparison built
  on it (rules.go).  \<open>json.Marshal\<close> and \<open>json.Unmarshal\<close> are written out for the
  payload struct; a panic is the value \<^term>\<open>None\<close>.  zlib is a parameter; its law is
  that decompression inverts compression.
\<close>

section \<open>Copies\<close>

definition copyMap :: "gomap \<Rightarrow> gomap" where
  "copyMap input = fold (\<lambda>(k, v). aupd k v) input []"

fun copyPorts :: "port_info option list \<Rightarrow> port_info option list" where
  "copyPorts [] = []"
| "copyPorts (p # ps) = (case p of None \<Rightarrow> None # copyPorts ps | Some port \<Rightarrow> Some port # copyPorts ps)"

section \<open>Encoding\<close>

definition canonicalPayloadVersion :: int where "canonicalPayloadVersion = 1"

text \<open>The payload struct: the schema version and the fields of the instance.\<close>

type_synonym canonicalPayload = "int \<times> inst"

definition jmap :: "gomap \<Rightarrow> json" where
  "jmap m = JObj (map (\<lambda>k. (k, JStr (go_get m k))) (sort (remdups (akeys m))))"

definition jint :: "int \<Rightarrow> json" where
  "jint i = JNum (int_digits i)"

definition jport :: "port_info option \<Rightarrow> json" where
  "jport p = (case p of
      None \<Rightarrow> JNull
    | Some q \<Rightarrow> JObj [(''Name'', JStr (PName q)), (''Protocol'', JStr (Protocol q)),
        (''Port'', jint (Port q)), (''ServicePort'', jint (ServicePort q))])"

definition payload_json :: "canonicalPayload \<Rightarrow> json" where
  "payload_json p = (case p of (version, ins) \<Rightarrow> JObj [
     (''schemaVersion'', jint version),
     (''sourceKey'', JStr (SourceKey ins)), (''sourceCluster'', JStr (SourceCluster ins)),
     (''instanceId'', JStr (InstanceId ins)), (''level'', JStr (Level ins)),
     (''ports'', JArr (map jport (Ports ins))), (''ip'', JStr (Ip ins)),
     (''envCode'', JStr (EnvCode ins)), (''envType'', JStr (EnvType ins)),
     (''envGroup'', JStr (EnvGroup ins)), (''cluster'', JStr (Cluster ins)),
     (''version'', JStr (Version ins)), (''enabled'', JBool (Enabled ins)),
     (''state'', JStr (State ins)), (''healthState'', JStr (HealthState ins)),
     (''appCode'', JStr (AppCode ins)), (''provider'', JStr (Provider ins)),
     (''label'', jmap (Label ins)), (''hostname'', JStr (Hostname ins)),
     (''cpu'', JNum (f32_text (Cpu ins))), (''memory'', jint (Memory ins)),
     (''disk'', jint (Disk ins)), (''os'', JStr (Os ins)), (''image'', jmap (Image ins)),
     (''idc'', JStr (Idc ins)), (''reversion'', jint (Reversion ins)), (''status'', jint (Status ins))])"

definition payload_of :: "inst \<Rightarrow> canonicalPayload" where
  "payload_of ins = (canonicalPayloadVersion,
     ins\<lparr>Ports := copyPorts (Ports ins), Label := copyMap (Label ins), Image := copyMap (Image ins)\<rparr>)"

definition CanonicalPayload :: "inst option \<Rightarrow> string option" where
  "CanonicalPayload x = (case x of
      None \<Rightarrow> Some []
    | Some ins \<Rightarrow> if f32_finite (Cpu ins) then Some (json_text (payload_json (payload_of ins))) else None)"

section \<open>Decoding\<close>

text \<open>One member of the payload object; \<^term>\<open>None\<close> is a decoding error.  A null leaves a
  scalar as it is and empties a slice or a map.\<close>

definition set_string :: "(string \<Rightarrow> 'a) \<Rightarrow> 'a \<Rightarrow> json \<Rightarrow> 'a option" where
  "set_string f old v = (case v of JStr s \<Rightarrow> Some (f s) | JNull \<Rightarrow> Some old | _ \<Rightarrow> None)"

definition set_bool :: "(bool \<Rightarrow> 'a) \<Rightarrow> 'a \<Rightarrow> json \<Rightarrow> 'a option" where
  "set_bool f old v = (case v of JBool b \<Rightarrow> Some (f b) | JNull \<Rightarrow> Some old | _ \<Rightarrow> None)"

definition set_int :: "nat \<Rightarrow> (int \<Rightarrow> 'a) \<Rightarrow> 'a \<Rightarrow> json \<Rightarrow> 'a option" where
  "set_int bits f old v = (case v of
      JNum t \<Rightarrow> (case ParseInt64 t of (i, err) \<Rightarrow>
         if err \<or> i < - (2 ^ (bits - 1)) \<or> 2 ^ (bits - 1) \<le> i then None else Some (f i))
    | JNull \<Rightarrow> Some old
    | _ \<Rightarrow> None)"

definition set_float32 :: "(float32 \<Rightarrow> 'a) \<Rightarrow> 'a \<Rightarrow> json \<Rightarrow> 'a option" where
  "set_float32 f old v = (case v of
      JNum t \<Rightarrow> (case ParseFloat32 t of None \<Rightarrow> None | Some a \<Rightarrow> Some (f a))
    | JNull \<Rightarrow> Some old
    | _ \<Rightarrow> None)"

fun add_members :: "gomap \<Rightarrow> (string \<times> json) list \<Rightarrow> gomap option" where
  "add_members m [] = Some m"
| "add_members m ((k, v) # ms) = (case v of
      JStr s \<Rightarrow> add_members (aupd k s m) ms
    | JNull \<Rightarrow> add_members (aupd k [] m) ms
    | _ \<Rightarrow> None)"

definition set_map :: "(gomap \<Rightarrow> 'a) \<Rightarrow> gomap \<Rightarrow> json \<Rightarrow> 'a option" where
  "set_map f old v = (case v of
      JNull \<Rightarrow> Some (f [])
    | JObj ms \<Rightarrow> (case add_members old ms of None \<Rightarrow> None | Some m \<Rightarrow> Some (f m))
    | _ \<Rightarrow> None)"

text \<open>Field names match without regard to case.\<close>

definition field_is :: "string \<Rightarrow> string \<Rightarrow> bool" where
  "field_is name key = (to_lower key = to_lower name)"

definition set_port_field :: "string \<Rightarrow> json \<Rightarrow> port_info \<Rightarrow> port_info option" where
  "set_port_field k v p =
    (if field_is ''Name'' k then set_string (\<lambda>s. p\<lparr>PName := s\<rparr>) p v
     else if field_is ''Protocol'' k then set_string (\<lambda>s. p\<lparr>Protocol := s\<rparr>) p v
     else if field_is ''Port'' k then set_int 32 (\<lambda>i. p\<lparr>Port := i\<rparr>) p v
     else if field_is ''ServicePort'' k then set_int 32 (\<lambda>i. p\<lparr>ServicePort := i\<rparr>) p v
     else Some p)"

fun fold_fields :: "(string \<Rightarrow> json \<Rightarrow> 'a \<Rightarrow> 'a option) \<Rightarrow> (string \<times> json) list \<Rightarrow> 'a \<Rightarrow> 'a option" where
  "fold_fields f [] x = Some x"
| "fold_fields f ((k, v) # ms) x = (case f k v x of None \<Rightarrow> None | Some y \<Rightarrow> fold_fields f ms y)"

definition zero_port :: port_info where
  "zero_port = \<lparr>PName = [], Protocol = [], Port = 0, ServicePort = 0\<rparr>"

text \<open>An element of the slice is decoded over the one that was there before.\<close>

fun decode_ports :: "port_info option list \<Rightarrow> json list \<Rightarrow> port_info option list option" where
  "decode_ports old [] = Some []"
| "decode_ports old (v # vs) =
    (case (case v of
        JNull \<Rightarrow> Some None
      | JObj ms \<Rightarrow>
         (let base = (case old of Some p # _ \<Rightarrow> p | _ \<Rightarrow> zero_port)
          in case fold_fields set_port_field ms base of None \<Rightarrow> None | Some p \<Rightarrow> Some (Some p))
      | _ \<Rightarrow> None) of
       None \<Rightarrow> None
     | Some x \<Rightarrow> (case decode_ports (drop 1 old) vs of None \<Rightarrow> None | Some xs \<Rightarrow> Some (x # xs)))"

definition set_ports :: "(port_info option list \<Rightarrow> 'a) \<Rightarrow> port_info option list \<Rightarrow> json \<Rightarrow> 'a option" where
  "set_ports f old v = (case v of
      JNull \<Rightarrow> Some (f [])
    | JArr vs \<Rightarrow> (case decode_ports old vs of None \<Rightarrow> None | Some ps \<Rightarrow> Some (f ps))
    | _ \<Rightarrow> None)"

definition set_payload_field :: "string \<Rightarrow> json \<Rightarrow> canonicalPayload \<Rightarrow> canonicalPayload option" where
  "set_payload_field k v p = (case p of (n, i) \<Rightarrow>
    (if field_is ''schemaVersion'' k then set_int 64 (\<lambda>x. (x, i)) p v
     else if field_is ''sourceKey'' k then set_string (\<lambda>s. (n, i\<lparr>SourceKey := s\<rparr>)) p v
     else if field_is ''sourceCluster'' k then set_string (\<lambda>s. (n, i\<lparr>SourceCluster := s\<rparr>)) p v
     else if field_is ''instanceId'' k then set_string (\<lambda>s. (n, i\<lparr>InstanceId := s\<rparr>)) p v
     else if field_is ''level'' k then set_string (\<lambda>s. (n, i\<lparr>Level := s\<rparr>)) p v
     else if field_is ''ports'' k then set_ports (\<lambda>x. (n, i\<lparr>Ports := x\<rparr>)) (Ports i) v
     else if field_is ''ip'' k then set_string (\<lambda>s. (n, i\<lparr>Ip := s\<rparr>)) p v
     else if field_is ''envCode'' k then set_string (\<lambda>s. (n, i\<lparr>EnvCode := s\<rparr>)) p v
     else if field_is ''envType'' k then set_string (\<lambda>s. (n, i\<lparr>EnvType := s\<rparr>)) p v
     else if field_is ''envGroup'' k then set_string (\<lambda>s. (n, i\<lparr>EnvGroup := s\<rparr>)) p v
     else if field_is ''cluster'' k then set_string (\<lambda>s. (n, i\<lparr>Cluster := s\<rparr>)) p v
     else if field_is ''version'' k then set_string (\<lambda>s. (n, i\<lparr>Version := s\<rparr>)) p v
     else if field_is ''enabled'' k then set_bool (\<lambda>s. (n, i\<lparr>Enabled := s\<rparr>)) p v
     else if field_is ''state'' k then set_string (\<lambda>s. (n, i\<lparr>State := s\<rparr>)) p v
     else if field_is ''healthState'' k then set_string (\<lambda>s. (n, i\<lparr>HealthState := s\<rparr>)) p v
     else if field_is ''appCode'' k then set_string (\<lambda>s. (n, i\<lparr>AppCode := s\<rparr>)) p v
     else if field_is ''provider'' k then set_string (\<lambda>s. (n, i\<lparr>Provider := s\<rparr>)) p v
     else if field_is ''label'' k then set_map (\<lambda>x. (n, i\<lparr>Label := x\<rparr>)) (Label i) v
     else if field_is ''hostname'' k then set_string (\<lambda>s. (n, i\<lparr>Hostname := s\<rparr>)) p v
     else if field_is ''cpu'' k then set_float32 (\<lambda>x. (n, i\<lparr>Cpu := x\<rparr>)) p v
     else if field_is ''memory'' k then set_int 32 (\<lambda>x. (n, i\<lparr>Memory := x\<rparr>)) p v
     else if field_is ''disk'' k then set_int 32 (\<lambda>x. (n, i\<lparr>Disk := x\<rparr>)) p v
     else if field_is ''os'' k then set_string (\<lambda>s. (n, i\<lparr>Os := s\<rparr>)) p v
     else if field_is ''image'' k then set_map (\<lambda>x. (n, i\<lparr>Image := x\<rparr>)) (Image i) v
     else if field_is ''idc'' k then set_string (\<lambda>s. (n, i\<lparr>Idc := s\<rparr>)) p v
     else if field_is ''reversion'' k then set_int 64 (\<lambda>x. (n, i\<lparr>Reversion := x\<rparr>)) p v
     else if field_is ''status'' k then set_int 32 (\<lambda>x. (n, i\<lparr>Status := x\<rparr>)) p v
     else Some p))"

definition unmarshal_payload :: "string \<Rightarrow> canonicalPayload option" where
  "unmarshal_payload raw = (case parse_json raw of
      Some (JObj ms) \<Rightarrow> fold_fields set_payload_field ms (0, zero_inst)
    | Some JNull \<Rightarrow> Some (0, zero_inst)
    | _ \<Rightarrow> None)"

definition DecodeCanonicalPayload :: "string \<Rightarrow> inst result" where
  "DecodeCanonicalPayload raw =
    (if raw = [] then Inl (ErrNew ''instance: canonical payload is empty'')
     else case unmarshal_payload raw of
       None \<Rightarrow> Inl (ErrNew ''instance: decode canonical payload'')
     | Some (n, i) \<Rightarrow>
        if n \<noteq> canonicalPayloadVersion then Inl (ErrNew ''instance: unsupported canonical payload version'')
        else Inr (i\<lparr>Ports := copyPorts (Ports i), Label := copyMap (Label i), Image := copyMap (Image i)\<rparr>))"

section \<open>Compression\<close>

text \<open>\<open>base64.RawURLEncoding\<close> over strings of bytes.\<close>

definition b64_char :: "nat \<Rightarrow> char" where
  "b64_char n = (if n < 26 then char_of (65 + n) else if n < 52 then char_of (71 + n)
     else if n < 62 then char_of (n - 4) else if n = 62 then CHR ''-'' else CHR ''_'')"

definition b64_val :: "char \<Rightarrow> nat option" where
  "b64_val c = (let n = (of_char c :: nat) in
     if 65 \<le> n \<and> n \<le> 90 then Some (n - 65)
     else if 97 \<le> n \<and> n \<le> 122 then Some (n - 71)
     else if 48 \<le> n \<and> n \<le> 57 then Some (n + 4)
     else if c = CHR ''-'' then Some 62 else if c = CHR ''_'' then Some 63 else None)"

fun b64_encode :: "string \<Rightarrow> string" where
  "b64_encode (a # b # c # r) =
    (let n = (of_char a * 256 + of_char b) * 256 + (of_char c :: nat)
     in b64_char (n div 262144) # b64_char (n div 4096 mod 64) # b64_char (n div 64 mod 64) # b64_char (n mod 64)
        # b64_encode r)"
| "b64_encode [a, b] =
    (let n = (of_char a * 256 + (of_char b :: nat)) * 4
     in [b64_char (n div 4096), b64_char (n div 64 mod 64), b64_char (n mod 64)])"
| "b64_encode [a] = (let n = (of_char a :: nat) * 16 in [b64_char (n div 64), b64_char (n mod 64)])"
| "b64_encode [] = []"

text \<open>New lines are skipped; a last group may have two or three characters, whose
  spare bits are not checked.\<close>

fun b64_groups :: "nat list \<Rightarrow> string option" where
  "b64_groups (w # x # y # z # r) =
    (let n = ((w * 64 + x) * 64 + y) * 64 + z
     in case b64_groups r of None \<Rightarrow> None
        | Some s \<Rightarrow> Some (char_of (n div 65536) # char_of (n div 256 mod 256) # char_of (n mod 256) # s))"
| "b64_groups [w, x, y] = (let n = ((w * 64 + x) * 64 + y) div 4 in Some [char_of (n div 256), char_of (n mod 256)])"
| "b64_groups [w, x] = Some [char_of ((w * 64 + x) div 16)]"
| "b64_groups [w] = None"
| "b64_groups [] = Some []"

definition b64_decode :: "string \<Rightarrow> string option" where
  "b64_decode s =
    (let vs = map b64_val (filter (\<lambda>c. c \<noteq> char_of (10 :: nat) \<and> c \<noteq> char_of (13 :: nat)) s)
     in if None \<in> set vs then None else b64_groups (map the vs))"

text \<open>zlib: \<open>deflate\<close> is \<open>zlib.NewWriter\<close> over the whole input, \<open>inflate\<close> reads a stream
  back or fails.\<close>

definition CompressedCanonicalPayload :: "(string \<Rightarrow> string) \<Rightarrow> inst option \<Rightarrow> string option" where
  "CompressedCanonicalPayload deflate ins = (case CanonicalPayload ins of
      None \<Rightarrow> None
    | Some raw \<Rightarrow> if raw = [] then Some [] else Some (b64_encode (deflate raw)))"

definition DecodeCompressedCanonicalPayload :: "(string \<Rightarrow> string result) \<Rightarrow> string \<Rightarrow> inst result" where
  "DecodeCompressedCanonicalPayload inflate raw =
    (if raw = [] then Inl (ErrNew ''instance: compressed canonical payload is empty'')
     else case b64_decode raw of
       None \<Rightarrow> Inl (ErrNew ''instance: decode compressed payload'')
     | Some encoded \<Rightarrow> (case inflate encoded of
          Inl err \<Rightarrow> Inl (ErrWrap ''instance: decompress canonical payload'' err)
        | Inr s \<Rightarrow> DecodeCanonicalPayload s))"

section \<open>Comparison\<close>

text \<open>\<^term>\<open>None\<close> is the panic of the encoding.\<close>

definition EqualNacosReconcile :: "inst option \<Rightarrow> inst option \<Rightarrow> bool option" where
  "EqualNacosReconcile provider remote =
    (if provider = None \<or> remote = None then Some False
     else case (CanonicalPayload provider, CanonicalPayload remote) of
       (Some a, Some b) \<Rightarrow> Some (a = b)
     | _ \<Rightarrow> None)"

definition DiffNacosReconcile :: "inst option \<Rightarrow> inst option \<Rightarrow> bool option" where
  "DiffNacosReconcile provider remote = map_option Not (EqualNacosReconcile provider remote)"

section \<open>Round trip\<close>

text \<open>Field by field, what decoding sets.\<close>

lemma lower_names:
  "to_lower ''schemaVersion'' = ''schemaversion''" "to_lower ''sourceKey'' = ''sourcekey''"
  "to_lower ''sourceCluster'' = ''sourcecluster''" "to_lower ''instanceId'' = ''instanceid''"
  "to_lower ''level'' = ''level''" "to_lower ''ports'' = ''ports''" "to_lower ''ip'' = ''ip''"
  "to_lower ''envCode'' = ''envcode''" "to_lower ''envType'' = ''envtype''"
  "to_lower ''envGroup'' = ''envgroup''" "to_lower ''cluster'' = ''cluster''"
  "to_lower ''version'' = ''version''" "to_lower ''enabled'' = ''enabled''"
  "to_lower ''state'' = ''state''" "to_lower ''healthState'' = ''healthstate''"
  "to_lower ''appCode'' = ''appcode''" "to_lower ''provider'' = ''provider''"
  "to_lower ''label'' = ''label''" "to_lower ''hostname'' = ''hostname''" "to_lower ''cpu'' = ''cpu''"
  "to_lower ''memory'' = ''memory''" "to_lower ''disk'' = ''disk''" "to_lower ''os'' = ''os''"
  "to_lower ''image'' = ''image''" "to_lower ''idc'' = ''idc''" "to_lower ''reversion'' = ''reversion''"
  "to_lower ''status'' = ''status''" "to_lower ''Name'' = ''name''"
  "to_lower ''Protocol'' = ''protocol''" "to_lower ''Port'' = ''port''"
  "to_lower ''ServicePort'' = ''serviceport''"
  by code_simp+

lemma set_payload_field_simps:
  "set_payload_field ''schemaVersion'' v (n, i) = set_int 64 (\<lambda>x. (x, i)) (n, i) v"
  "set_payload_field ''sourceKey'' v (n, i) = set_string (\<lambda>s. (n, i\<lparr>SourceKey := s\<rparr>)) (n, i) v"
  "set_payload_field ''sourceCluster'' v (n, i) = set_string (\<lambda>s. (n, i\<lparr>SourceCluster := s\<rparr>)) (n, i) v"
  "set_payload_field ''instanceId'' v (n, i) = set_string (\<lambda>s. (n, i\<lparr>InstanceId := s\<rparr>)) (n, i) v"
  "set_payload_field ''level'' v (n, i) = set_string (\<lambda>s. (n, i\<lparr>Level := s\<rparr>)) (n, i) v"
  "set_payload_field ''ports'' v (n, i) = set_ports (\<lambda>x. (n, i\<lparr>Ports := x\<rparr>)) (Ports i) v"
  "set_payload_field ''ip'' v (n, i) = set_string (\<lambda>s. (n, i\<lparr>Ip := s\<rparr>)) (n, i) v"
  "set_payload_field ''envCode'' v (n, i) = set_string (\<lambda>s. (n, i\<lparr>EnvCode := s\<rparr>)) (n, i) v"
  "set_payload_field ''envType'' v (n, i) = set_string (\<lambda>s. (n, i\<lparr>EnvType := s\<rparr>)) (n, i) v"
  "set_payload_field ''envGroup'' v (n, i) = set_string (\<lambda>s. (n, i\<lparr>EnvGroup := s\<rparr>)) (n, i) v"
  "set_payload_field ''cluster'' v (n, i) = set_string (\<lambda>s. (n, i\<lparr>Cluster := s\<rparr>)) (n, i) v"
  "set_payload_field ''version'' v (n, i) = set_string (\<lambda>s. (n, i\<lparr>Version := s\<rparr>)) (n, i) v"
  "set_payload_field ''enabled'' v (n, i) = set_bool (\<lambda>s. (n, i\<lparr>Enabled := s\<rparr>)) (n, i) v"
  "set_payload_field ''state'' v (n, i) = set_string (\<lambda>s. (n, i\<lparr>State := s\<rparr>)) (n, i) v"
  "set_payload_field ''healthState'' v (n, i) = set_string (\<lambda>s. (n, i\<lparr>HealthState := s\<rparr>)) (n, i) v"
  "set_payload_field ''appCode'' v (n, i) = set_string (\<lambda>s. (n, i\<lparr>AppCode := s\<rparr>)) (n, i) v"
  "set_payload_field ''provider'' v (n, i) = set_string (\<lambda>s. (n, i\<lparr>Provider := s\<rparr>)) (n, i) v"
  "set_payload_field ''label'' v (n, i) = set_map (\<lambda>x. (n, i\<lparr>Label := x\<rparr>)) (Label i) v"
  "set_payload_field ''hostname'' v (n, i) = set_string (\<lambda>s. (n, i\<lparr>Hostname := s\<rparr>)) (n, i) v"
  "set_payload_field ''cpu'' v (n, i) = set_float32 (\<lambda>x. (n, i\<lparr>Cpu := x\<rparr>)) (n, i) v"
  "set_payload_field ''memory'' v (n, i) = set_int 32 (\<lambda>x. (n, i\<lparr>Memory := x\<rparr>)) (n, i) v"
  "set_payload_field ''disk'' v (n, i) = set_int 32 (\<lambda>x. (n, i\<lparr>Disk := x\<rparr>)) (n, i) v"
  "set_payload_field ''os'' v (n, i) = set_string (\<lambda>s. (n, i\<lparr>Os := s\<rparr>)) (n, i) v"
  "set_payload_field ''image'' v (n, i) = set_map (\<lambda>x. (n, i\<lparr>Image := x\<rparr>)) (Image i) v"
  "set_payload_field ''idc'' v (n, i) = set_string (\<lambda>s. (n, i\<lparr>Idc := s\<rparr>)) (n, i) v"
  "set_payload_field ''reversion'' v (n, i) = set_int 64 (\<lambda>x. (n, i\<lparr>Reversion := x\<rparr>)) (n, i) v"
  "set_payload_field ''status'' v (n, i) = set_int 32 (\<lambda>x. (n, i\<lparr>Status := x\<rparr>)) (n, i) v"
  by (simp_all add: set_payload_field_def field_is_def lower_names)

lemma set_port_field_simps:
  "set_port_field ''Name'' v p = set_string (\<lambda>s. p\<lparr>PName := s\<rparr>) p v"
  "set_port_field ''Protocol'' v p = set_string (\<lambda>s. p\<lparr>Protocol := s\<rparr>) p v"
  "set_port_field ''Port'' v p = set_int 32 (\<lambda>i. p\<lparr>Port := i\<rparr>) p v"
  "set_port_field ''ServicePort'' v p = set_int 32 (\<lambda>i. p\<lparr>ServicePort := i\<rparr>) p v"
  by (simp_all add: set_port_field_def field_is_def lower_names)

definition in_bits :: "nat \<Rightarrow> int \<Rightarrow> bool" where
  "in_bits b i \<longleftrightarrow> - (2 ^ (b - 1)) \<le> i \<and> i < 2 ^ (b - 1)"

lemma set_scalar_simps [simp]:
  "set_string f old (JStr s) = Some (f s)"
  "set_bool g old (JBool x) = Some (g x)"
  by (simp_all add: set_string_def set_bool_def)

lemma set_int_jint [simp]: "in_bits b i \<Longrightarrow> b \<le> 64 \<Longrightarrow> set_int b f old (jint i) = Some (f i)"
proof -
  assume i: "in_bits b i" "b \<le> 64"
  have "(2 :: int) ^ (b - 1) \<le> 2 ^ 63" using i(2) by (intro power_increasing) simp_all
  then have "ParseInt64 (int_digits i) = (i, False)" using i(1) by (intro ParseInt64_int_digits) (auto simp: in_bits_def)
  then show ?thesis using i(1) by (simp add: set_int_def jint_def in_bits_def)
qed

lemma set_float32_text [simp]: "f32_finite a \<Longrightarrow> set_float32 f old (JNum (f32_text a)) = Some (f a)"
  by (simp add: set_float32_def ParseFloat32_text)

text \<open>A map with its keys in order.\<close>

definition norm_map :: "gomap \<Rightarrow> gomap" where
  "norm_map m = map (\<lambda>k. (k, go_get m k)) (sort (remdups (akeys m)))"

lemma map_of_norm_map [simp]: "map_of (norm_map m) = map_of m"
proof
  fix k
  have f: "map_of (map (\<lambda>k. (k, f k)) ks) k = (if k \<in> set ks then Some (f k) else None)"
    for f :: "string \<Rightarrow> string" and ks
    by (induction ks) auto
  have k: "map_of m k = None \<longleftrightarrow> k \<notin> fst ` set m" by (rule map_of_None_iff)
  show "map_of (norm_map m) k = map_of m k"
    unfolding norm_map_def f using k by (cases "map_of m k") (simp_all add: go_get_def)
qed

lemma awf_norm_map [simp]: "awf (norm_map m)"
  by (simp add: norm_map_def comp_def)

lemma norm_map_cong: "map_of m = map_of m' \<Longrightarrow> norm_map m = norm_map m'"
proof -
  assume eq: "map_of m = map_of m'"
  then have "set (akeys m) = set (akeys m')" by (metis dom_map_of_conv_image_fst list.set_map)
  then have "sort (remdups (akeys m)) = sort (remdups (akeys m'))"
    by (metis sorted_list_of_set_sort_remdups)
  then show ?thesis using eq by (simp add: norm_map_def go_get_def)
qed

lemma fold_aupd_append:
  "awf (acc @ m) \<Longrightarrow> fold (\<lambda>(k, v). aupd k v) m acc = acc @ m"
proof (induction m arbitrary: acc)
  case (Cons kv m)
  obtain k v where kv: "kv = (k, v)" by (cases kv)
  have "aupd k v acc = acc @ [(k, v)]" using Cons.prems kv by (intro akeys_aupd_new) auto
  then show ?case using Cons kv by simp
qed simp

lemma copyMap_awf [simp]: "awf m \<Longrightarrow> copyMap m = m"
  using fold_aupd_append [of "[]" m] by (simp add: copyMap_def)

lemma copyPorts_id [simp]: "copyPorts ps = ps"
  by (induction ps) (auto split: option.splits)

lemma add_members_strings:
  "add_members m (map (\<lambda>k. (k, JStr (f k))) ks) = Some (fold (\<lambda>(k, v). aupd k v) (map (\<lambda>k. (k, f k)) ks) m)"
  by (induction ks arbitrary: m) simp_all

lemma set_map_jmap [simp]: "set_map f [] (jmap m) = Some (f (norm_map m))"
  using fold_aupd_append [of "[]" "norm_map m"]
  by (simp add: set_map_def jmap_def add_members_strings norm_map_def [symmetric])

definition port_typed :: "port_info option \<Rightarrow> bool" where
  "port_typed p = (case p of None \<Rightarrow> True | Some q \<Rightarrow> in_bits 32 (Port q) \<and> in_bits 32 (ServicePort q))"

lemma decode_ports_jport: "list_all port_typed ps \<Longrightarrow> decode_ports [] (map jport ps) = Some ps"
  by (induction ps) (auto simp: port_typed_def jport_def set_port_field_simps zero_port_def split: option.splits)

text \<open>The instances the Go types admit: integers in range, maps without duplicate
  keys, and a finite CPU size.\<close>

definition inst_typed :: "inst \<Rightarrow> bool" where
  "inst_typed i \<longleftrightarrow> list_all port_typed (Ports i) \<and> awf (Label i) \<and> awf (Image i) \<and> f32_finite (Cpu i)
     \<and> in_bits 32 (Memory i) \<and> in_bits 32 (Disk i) \<and> in_bits 64 (Reversion i) \<and> in_bits 32 (Status i)"

definition norm_inst :: "inst \<Rightarrow> inst" where
  "norm_inst i = i\<lparr>Label := norm_map (Label i), Image := norm_map (Image i)\<rparr>"

lemma norm_map_eq_iff: "norm_map m = norm_map m' \<longleftrightarrow> map_of m = map_of m'"
  by (metis map_of_norm_map norm_map_cong)

lemma norm_inst_eq_iff:
  "norm_inst a = norm_inst b \<longleftrightarrow> map_of (Label a) = map_of (Label b) \<and> map_of (Image a) = map_of (Image b)
     \<and> a\<lparr>Label := [], Image := []\<rparr> = b\<lparr>Label := [], Image := []\<rparr>"
  by (cases a; cases b) (auto simp: norm_inst_def norm_map_eq_iff)

lemma payload_json_wf: "json_wf (payload_json p)"
  by (auto simp: payload_json_def jmap_def jport_def jint_def number_text_int f32_text_number list_all_iff
      split: prod.splits option.splits)

lemma decode_payload:
  assumes "inst_typed i" and "in_bits 64 n"
  shows "unmarshal_payload (json_text (payload_json (n, i))) = Some (n, norm_inst i)"
proof -
  have ps: "set_ports f [] (JArr (map jport (Ports i))) = Some (f (Ports i))" for f :: "port_info option list \<Rightarrow> canonicalPayload"
    using assms(1) by (simp add: set_ports_def decode_ports_jport inst_typed_def)
  have "parse_json (json_text (payload_json (n, i))) = Some (payload_json (n, i))"
    by (rule parse_json_text [OF payload_json_wf])
  then show ?thesis using assms ps
    by (simp add: unmarshal_payload_def payload_json_def set_payload_field_simps zero_inst_def norm_inst_def inst_typed_def)
qed


lemma payload_of_typed: "inst_typed i \<Longrightarrow> payload_of i = (canonicalPayloadVersion, i)"
  by (simp add: payload_of_def inst_typed_def)

lemma in_bits_version: "in_bits 64 canonicalPayloadVersion"
  by (simp add: in_bits_def canonicalPayloadVersion_def)

lemma payload_json_norm: "payload_json (n, norm_inst i) = payload_json (n, i)"
proof -
  have k: "akeys (norm_map m) = sort (remdups (akeys m))" for m by (simp add: norm_map_def comp_def)
  have "sort (remdups (akeys (norm_map m))) = sort (remdups (akeys m))" for m
    unfolding k by (simp add: distinct_remdups_id sorted_sort_id)
  moreover have "go_get (norm_map m) = go_get m" for m by (simp add: go_get_def fun_eq_iff)
  ultimately have "jmap (norm_map m) = jmap m" for m by (simp add: jmap_def)
  then show ?thesis by (simp add: payload_json_def norm_inst_def)
qed

lemma json_text_payload: "\<exists>r. json_text (payload_json p) = CHR ''{'' # r"
  by (cases p) (simp add: payload_json_def)

lemma Decode_Canonical:
  assumes "inst_typed i"
  shows "DecodeCanonicalPayload (json_text (payload_json (payload_of i))) = Inr (norm_inst i)"
proof -
  obtain r where r: "json_text (payload_json (payload_of i)) = CHR ''{'' # r" using json_text_payload by blast
  have "unmarshal_payload (json_text (payload_json (payload_of i))) = Some (canonicalPayloadVersion, norm_inst i)"
    unfolding payload_of_typed [OF assms] by (rule decode_payload [OF assms in_bits_version])
  then show ?thesis unfolding DecodeCanonicalPayload_def
    by (simp add: r norm_inst_def)
qed

lemma base64_group: "n < 64 \<Longrightarrow> b64_val (b64_char n) = Some n"
  by (auto simp: b64_val_def b64_char_def Let_def)

lemma base64_no_newline: "n < 64 \<Longrightarrow> b64_char n \<noteq> char_of (10 :: nat) \<and> b64_char n \<noteq> char_of (13 :: nat)"
  by (auto simp: b64_char_def dest: arg_cong [where f = "of_char :: char \<Rightarrow> nat"])


fun b64_nums :: "string \<Rightarrow> nat list" where
  "b64_nums (a # b # c # r) =
    (let n = (of_char a * 256 + of_char b) * 256 + (of_char c :: nat)
     in [n div 262144, n div 4096 mod 64, n div 64 mod 64, n mod 64] @ b64_nums r)"
| "b64_nums [a, b] = (let n = (of_char a * 256 + (of_char b :: nat)) * 4 in [n div 4096, n div 64 mod 64, n mod 64])"
| "b64_nums [a] = (let n = (of_char a :: nat) * 16 in [n div 64, n mod 64])"
| "b64_nums [] = []"

lemma byte_less [simp]: "(of_char c :: nat) < 256"
  by simp

lemma b64_encode_nums: "b64_encode s = map b64_char (b64_nums s)"
  by (induction s rule: b64_nums.induct) (simp_all add: Let_def)

lemma radix: "z < k \<Longrightarrow> (x * k + z) div k = x \<and> (x * k + z) mod k = z" for x z k :: nat
  by simp

lemma radix_less: "x < j \<Longrightarrow> z < k \<Longrightarrow> x * k + z < j * k" for x z j k :: nat
proof -
  assume "x < j" "z < k"
  have "(x + 1) * k \<le> j * k" using \<open>x < j\<close> by (intro mult_le_mono1) simp
  moreover have "x * k + z < (x + 1) * k" using \<open>z < k\<close> by simp
  ultimately show ?thesis by linarith
qed

lemma b64_nums_bound: "x \<in> set (b64_nums s) \<Longrightarrow> x < 64"
proof (induction s rule: b64_nums.induct)
  case (1 a b c r)
  define n :: nat where "n = (of_char a * 256 + of_char b) * 256 + of_char c"
  have "n < 256 * 256 * 256" unfolding n_def by (intro radix_less byte_less)
  then have "n div 262144 < 64" by (simp add: div_less_iff_less_mult)
  then show ?case using 1 unfolding b64_nums.simps Let_def n_def [symmetric] by auto
next
  case (2 a b)
  define n :: nat where "n = (of_char a * 256 + of_char b) * 4"
  have "of_char a * 256 + of_char b < (256 * 256 :: nat)" by (intro radix_less byte_less)
  then have "n div 4096 < 64" by (simp add: n_def div_less_iff_less_mult)
  then show ?case using 2 unfolding b64_nums.simps Let_def n_def [symmetric] by auto
next
  case (3 a)
  have "(of_char a :: nat) * 16 < 64 * 64" using byte_less [of a] by linarith
  then show ?case using 3 by (auto simp: Let_def div_less_iff_less_mult)
qed simp

lemma digits64:
  "((n div 262144 * 64 + n div 4096 mod 64) * 64 + n div 64 mod 64) * 64 + n mod 64 = (n :: nat)"
  "(n div 4096 * 64 + n div 64 mod 64) * 64 + n mod 64 = n"
proof -
  have e: "n div 64 * 64 + n mod 64 = n" "n div 4096 * 64 + n div 64 mod 64 = n div 64"
    "n div 262144 * 64 + n div 4096 mod 64 = n div 4096"
    using div_mult_mod_eq [of n 64] div_mult_mod_eq [of "n div 64" 64] div_mult_mod_eq [of "n div 4096" 64]
    by (simp_all flip: div_mult2_eq)
  show "((n div 262144 * 64 + n div 4096 mod 64) * 64 + n div 64 mod 64) * 64 + n mod 64 = n" by (simp only: e)
  show "(n div 4096 * 64 + n div 64 mod 64) * 64 + n mod 64 = n" by (simp only: e)
qed

lemma b64_groups_nums: "b64_groups (b64_nums s) = Some s"
proof (induction s rule: b64_nums.induct)
  case (1 a b c r)
  define x y z :: nat where "x = of_char a" and "y = of_char b" and "z = of_char c"
  have z: "z < 256" "y < 256" "char_of x = a" "char_of y = b" "char_of z = c" by (simp_all add: x_def y_def z_def)
  define n where "n = (x * 256 + y) * 256 + z"
  have n: "n mod 256 = z" "n div 256 = x * 256 + y" "(x * 256 + y) div 256 = x" "(x * 256 + y) mod 256 = y"
    unfolding n_def using radix [OF z(1)] radix [OF z(2)] by blast+
  moreover have "n div 65536 = x" using n(2,3) div_mult2_eq [of n 256 256] by simp
  ultimately show ?case
    using 1 z unfolding b64_nums.simps Let_def x_def [symmetric] y_def [symmetric] z_def [symmetric] n_def [symmetric]
    by (simp only: append_Cons append_Nil b64_groups.simps Let_def digits64 option.case)
next
  case (2 a b)
  define x y :: nat where "x = of_char a" and "y = of_char b"
  have y: "y < 256" "char_of x = a" "char_of y = b" by (simp_all add: x_def y_def)
  define n where "n = (x * 256 + y) * 4"
  have "n div 4 = x * 256 + y" "(x * 256 + y) div 256 = x" "(x * 256 + y) mod 256 = y"
    unfolding n_def using radix [OF y(1)] by simp_all
  then show ?case using y unfolding b64_nums.simps Let_def x_def [symmetric] y_def [symmetric] n_def [symmetric]
    by (simp only: b64_groups.simps Let_def digits64)
next
  case (3 a)
  have "(of_char a * 16 div 64 * 64 + of_char a * 16 mod 64) div 16 = (of_char a :: nat)"
    by (simp only: div_mult_mod_eq nonzero_mult_div_cancel_right)
  then show ?case by (simp add: Let_def)
qed simp

lemma b64_round_trip: "b64_decode (b64_encode s) = Some s"
proof -
  have f: "filter (\<lambda>c. c \<noteq> char_of (10 :: nat) \<and> c \<noteq> char_of (13 :: nat)) (b64_encode s) = b64_encode s"
    using b64_nums_bound [of _ s] base64_no_newline by (auto simp: b64_encode_nums filter_id_conv)
  have "map b64_val (b64_encode s) = map Some (b64_nums s)"
    using b64_nums_bound [of _ s] base64_group by (simp add: b64_encode_nums)
  then show ?thesis unfolding b64_decode_def f by (simp add: comp_def b64_groups_nums image_iff)
qed

lemma b64_encode_Nil_iff: "b64_encode s = [] \<longleftrightarrow> s = []"
  by (cases s rule: b64_encode.cases) (simp_all add: Let_def)

lemma compressed_decodes:
  assumes "inst_typed i" and "\<And>x. inflate (deflate x) = Inr x" and "\<And>x. deflate x \<noteq> []"
  shows "\<exists>z. CompressedCanonicalPayload deflate (Some i) = Some z \<and> DecodeCompressedCanonicalPayload inflate z = Inr (norm_inst i)"
proof -
  let ?raw = "json_text (payload_json (payload_of i))"
  have raw: "CanonicalPayload (Some i) = Some ?raw" using assms(1) by (simp add: CanonicalPayload_def inst_typed_def)
  have ne: "?raw \<noteq> []" using json_text_payload [of "payload_of i"] by auto
  have "CompressedCanonicalPayload deflate (Some i) = Some (b64_encode (deflate ?raw))"
    using raw ne by (simp add: CompressedCanonicalPayload_def)
  moreover have "DecodeCompressedCanonicalPayload inflate (b64_encode (deflate ?raw)) = Inr (norm_inst i)"
    using assms Decode_Canonical [OF assms(1)]
    by (simp add: DecodeCompressedCanonicalPayload_def b64_round_trip b64_encode_Nil_iff)
  ultimately show ?thesis by blast
qed

text \<open>C7: The stored payload is complete: decoding what \<open>CanonicalPayload\<close> wrote, or what
  \<open>CompressedCanonicalPayload\<close> wrote through a compressor that can be undone and
  never yields the empty text, gives back the instance, field by field, with its
  maps listed by key.\<close>

theorem payload_round_trip:
  assumes "inst_typed i" and "\<And>x. inflate (deflate x) = Inr x" and "\<And>x. deflate x \<noteq> []"
  shows "\<exists>raw z. CanonicalPayload (Some i) = Some raw \<and> DecodeCanonicalPayload raw = Inr (norm_inst i)
    \<and> CompressedCanonicalPayload deflate (Some i) = Some z
    \<and> DecodeCompressedCanonicalPayload inflate z = Inr (norm_inst i)"
  using compressed_decodes [where deflate = deflate and inflate = inflate, OF assms] Decode_Canonical [OF assms(1)] assms(1)
  by (simp add: CanonicalPayload_def inst_typed_def)

lemma sample_typed: "inst_typed sample_new"
  by (simp add: inst_typed_def sample_new_def zero_inst_def in_bits_def f32_finite_def f32_abs_def)

theorem payload_round_trip_witness:
  "\<exists>raw z. CanonicalPayload (Some sample_new) = Some raw \<and> DecodeCanonicalPayload raw = Inr (norm_inst sample_new)
    \<and> CompressedCanonicalPayload (\<lambda>x. CHR ''z'' # x) (Some sample_new) = Some z
    \<and> DecodeCompressedCanonicalPayload (\<lambda>y. case y of [] \<Rightarrow> Inl (ErrNew []) | _ # x \<Rightarrow> Inr x) z = Inr (norm_inst sample_new)"
  using payload_round_trip [OF sample_typed, of "\<lambda>y. case y of [] \<Rightarrow> Inl (ErrNew []) | _ # x \<Rightarrow> Inr x" "\<lambda>x. CHR ''z'' # x"]
  by simp

lemma EqualNacosReconcile_norm:
  assumes "inst_typed a" and "inst_typed b"
  shows "EqualNacosReconcile (Some a) (Some b) = Some (norm_inst a = norm_inst b)"
proof -
  have p: "CanonicalPayload (Some i) = Some (json_text (payload_json (payload_of i)))" if "inst_typed i" for i
    using that by (simp add: CanonicalPayload_def inst_typed_def)
  have "json_text (payload_json (payload_of a)) = json_text (payload_json (payload_of b)) \<longleftrightarrow> norm_inst a = norm_inst b"
  proof
    assume "json_text (payload_json (payload_of a)) = json_text (payload_json (payload_of b))"
    then show "norm_inst a = norm_inst b" using Decode_Canonical [OF assms(1)] Decode_Canonical [OF assms(2)] by simp
  next
    assume "norm_inst a = norm_inst b"
    then show "json_text (payload_json (payload_of a)) = json_text (payload_json (payload_of b))"
      using payload_json_norm [of _ a] payload_json_norm [of _ b] assms by (simp add: payload_of_typed)
  qed
  with p assms show ?thesis unfolding EqualNacosReconcile_def by simp
qed

text \<open>C26: The reconcile comparison is equality of the instances: for instances of
  the Go types \<open>EqualNacosReconcile\<close> holds exactly when every field is equal, maps
  compared as maps, and it never panics on a finite CPU size.\<close>

theorem EqualNacosReconcile_iff:
  assumes "inst_typed a" and "inst_typed b"
  shows "EqualNacosReconcile (Some a) (Some b) = Some
     (map_of (Label a) = map_of (Label b) \<and> map_of (Image a) = map_of (Image b)
      \<and> a\<lparr>Label := [], Image := []\<rparr> = b\<lparr>Label := [], Image := []\<rparr>)"
  using EqualNacosReconcile_norm [OF assms] unfolding norm_inst_eq_iff by simp

theorem EqualNacosReconcile_iff_witness:
  "EqualNacosReconcile (Some sample_new) (Some sample_new) = Some True
   \<and> EqualNacosReconcile (Some sample_new) (Some (sample_new\<lparr>Reversion := 7\<rparr>)) = Some False"
proof -
  have t: "inst_typed (sample_new\<lparr>Reversion := 7\<rparr>)" using sample_typed by (simp add: inst_typed_def in_bits_def)
  from EqualNacosReconcile_iff [OF sample_typed sample_typed] EqualNacosReconcile_iff [OF sample_typed t]
  show ?thesis by (simp add: sample_new_def zero_inst_def)
qed

end
