(* ===== verification/Overflow_Queue.thy ===== *)
theory Overflow_Queue
  imports Prelude
begin

text \<open>
  The bounded requeue of src/pkg/providers/overflow.go between a provider and
  its non-blocking worker pool: at most one task per identity, the newest one,
  kept until the pool accepts it.  A task is a value of type \<open>'a\<close>; the pool is
  what \<open>submit\<close> answers.  The operations under the lock are functions on the
  queue, and \<open>Offer\<close>, \<open>Close\<close> and the dispatcher goroutine are interleaved at the
  grain of the lock and of the channels.
\<close>

section \<open>The queue\<close>

record 'a overflowEntry =
  oe_task :: 'a
  oe_generation :: "64 word"
  oe_inflight :: bool

record 'a OverflowQueue =
  oq_entries :: "(string \<times> 'a overflowEntry) list"
  oq_order :: "string list"
  oq_max :: nat
  oq_wake :: bool
  oq_closed :: bool
  oq_stop :: bool

definition PoolBenchSize :: nat where "PoolBenchSize = 100"

definition NewOverflowQueue :: "int \<Rightarrow> 'a OverflowQueue" where
  "NewOverflowQueue mx = \<lparr>oq_entries = [], oq_order = [],
     oq_max = (if mx \<le> 0 then PoolBenchSize * 4 else nat mx), oq_wake = False, oq_closed = False, oq_stop = False\<rparr>"

text \<open>\<open>Offer\<close> under the lock: the queue, the result, whether a signal follows, and the
  key reported to \<open>onDrop\<close>.  A nil task is refused before the lock is taken.\<close>

definition ov_key :: "string \<Rightarrow> string" where
  "ov_key key = (if key = [] then ''<empty-identity>'' else key)"

definition ov_Offer :: "string \<Rightarrow> 'a option \<Rightarrow> 'a OverflowQueue \<Rightarrow> 'a OverflowQueue \<times> bool \<times> bool \<times> string option" where
  "ov_Offer key0 task q = (case task of
      None \<Rightarrow> (q, False, False, None)
    | Some t \<Rightarrow>
       (let key = ov_key key0 in
        if oq_closed q then (q, False, False, None)
        else case map_of (oq_entries q) key of
          Some existing \<Rightarrow>
            (q\<lparr>oq_entries := aupd key (existing\<lparr>oe_task := t, oe_generation := oe_generation existing + 1\<rparr>)
               (oq_entries q)\<rparr>, True, True, None)
        | None \<Rightarrow>
            if oq_max q \<le> length (oq_entries q) then (q, False, False, Some key)
            else (q\<lparr>oq_entries := aupd key \<lparr>oe_task = t, oe_generation = 1, oe_inflight = False\<rparr> (oq_entries q),
                    oq_order := oq_order q @ [key]\<rparr>, True, True, None)))"

definition ov_Len :: "'a OverflowQueue option \<Rightarrow> nat" where
  "ov_Len x = (case x of None \<Rightarrow> 0 | Some q \<Rightarrow> length (oq_entries q))"

definition ov_signal :: "'a OverflowQueue \<Rightarrow> 'a OverflowQueue" where
  "ov_signal q = q\<lparr>oq_wake := True\<rparr>"

text \<open>The first part of \<open>Close\<close>; the second waits for the dispatcher.\<close>

definition ov_close :: "'a OverflowQueue \<Rightarrow> 'a OverflowQueue" where
  "ov_close q = q\<lparr>oq_closed := True, oq_stop := True\<rparr>"

fun ov_next_from :: "string list \<Rightarrow> 'a OverflowQueue \<Rightarrow> (string \<times> 'a overflowEntry) option \<times> 'a OverflowQueue" where
  "ov_next_from [] q = (None, q\<lparr>oq_order := []\<rparr>)"
| "ov_next_from (key # rest) q = (case map_of (oq_entries q) key of
      None \<Rightarrow> ov_next_from rest q
    | Some entry \<Rightarrow>
       if oe_inflight entry then ov_next_from rest q
       else (Some (key, entry\<lparr>oe_inflight := True\<rparr>),
             q\<lparr>oq_order := rest, oq_entries := aupd key (entry\<lparr>oe_inflight := True\<rparr>) (oq_entries q)\<rparr>))"

definition ov_next :: "'a OverflowQueue \<Rightarrow> (string \<times> 'a overflowEntry) option \<times> 'a OverflowQueue" where
  "ov_next q = ov_next_from (oq_order q) q"

text \<open>\<open>finish\<close>, with the signal that follows it outside the lock.\<close>

definition ov_finish :: "string \<Rightarrow> 64 word \<Rightarrow> bool \<Rightarrow> 'a OverflowQueue \<Rightarrow> 'a OverflowQueue" where
  "ov_finish key generation submitted q = (case map_of (oq_entries q) key of
      None \<Rightarrow> q
    | Some entry \<Rightarrow>
       let requeued = q\<lparr>oq_entries := aupd key (entry\<lparr>oe_inflight := False\<rparr>) (oq_entries q),
                        oq_order := oq_order q @ [key]\<rparr>;
           q' = (if oe_generation entry = generation then
                   if submitted then q\<lparr>oq_entries := adel key (oq_entries q)\<rparr> else requeued
                 else requeued)
       in if \<not> submitted \<or> oe_generation entry \<noteq> generation then ov_signal q' else q')"

section \<open>The system\<close>

text \<open>The dispatcher is at its \<open>select\<close>, in the inner loop before \<open>next\<close>, submitting a
  task, waiting to retry, or has returned.  Ghosts: the number of accepted offers,
  the newest accepted task and the last submitted task of each key.\<close>

datatype 'a ov_pc = Selecting | Looping | Submitting string "64 word" 'a | Retrying | Returned

record 'a ov_sys =
  os_q :: "'a OverflowQueue"
  os_pc :: "'a ov_pc"
  os_pending :: nat
  os_cancelled :: bool
  os_accepted :: nat
  os_newest :: "string \<Rightarrow> 'a option"
  os_submitted :: "string \<Rightarrow> 'a option"

definition ov_init :: "int \<Rightarrow> 'a ov_sys" where
  "ov_init mx = \<lparr>os_q = NewOverflowQueue mx, os_pc = Selecting, os_pending = 0, os_cancelled = False,
     os_accepted = 0, os_newest = Map.empty, os_submitted = Map.empty\<rparr>"

inductive ov_step :: "'a ov_sys \<Rightarrow> 'a ov_sys \<Rightarrow> bool" where
  ov_offer: "ov_Offer key (Some t) (os_q s) = (q, accepted, wake, dropped) \<Longrightarrow>
     ov_step s (s\<lparr>os_q := q, os_pending := os_pending s + of_bool wake,
       os_accepted := os_accepted s + of_bool accepted,
       os_newest := (if accepted then (os_newest s)(ov_key key \<mapsto> t) else os_newest s)\<rparr>)"
| ov_sig: "0 < os_pending s \<Longrightarrow> ov_step s (s\<lparr>os_q := ov_signal (os_q s), os_pending := os_pending s - 1\<rparr>)"
| ov_cls: "ov_step s (s\<lparr>os_q := ov_close (os_q s)\<rparr>)"
| ov_cancel: "ov_step s (s\<lparr>os_cancelled := True\<rparr>)"
| ov_exit: "os_pc s \<in> {Selecting, Retrying} \<Longrightarrow> os_cancelled s \<or> oq_stop (os_q s) \<Longrightarrow>
     ov_step s (s\<lparr>os_pc := Returned\<rparr>)"
| ov_woken: "os_pc s = Selecting \<Longrightarrow> oq_wake (os_q s) \<Longrightarrow>
     ov_step s (s\<lparr>os_q := (os_q s)\<lparr>oq_wake := False\<rparr>, os_pc := Looping\<rparr>)"
| ov_empty: "os_pc s = Looping \<Longrightarrow> ov_next (os_q s) = (None, q) \<Longrightarrow>
     ov_step s (s\<lparr>os_q := q, os_pc := Selecting\<rparr>)"
| ov_take: "os_pc s = Looping \<Longrightarrow> ov_next (os_q s) = (Some (key, entry), q) \<Longrightarrow>
     ov_step s (s\<lparr>os_q := q, os_pc := Submitting key (oe_generation entry) (oe_task entry)\<rparr>)"
| ov_accept: "os_pc s = Submitting key g t \<Longrightarrow>
     ov_step s (s\<lparr>os_q := ov_finish key g True (os_q s), os_pc := Looping,
       os_submitted := (os_submitted s)(key \<mapsto> t)\<rparr>)"
| ov_reject: "os_pc s = Submitting key g t \<Longrightarrow>
     ov_step s (s\<lparr>os_q := ov_finish key g False (os_q s), os_pc := Retrying\<rparr>)"
| ov_retry: "os_pc s = Retrying \<Longrightarrow> ov_step s (s\<lparr>os_pc := Selecting\<rparr>)"

section \<open>Invariant\<close>

text \<open>The key being submitted, if any.\<close>

definition busy :: "'a ov_pc \<Rightarrow> string option" where
  "busy pc = (case pc of Submitting k _ _ \<Rightarrow> Some k | _ \<Rightarrow> None)"

definition ov_shape :: "'a OverflowQueue \<Rightarrow> string option \<Rightarrow> bool" where
  "ov_shape q b \<longleftrightarrow> awf (oq_entries q) \<and> distinct (oq_order q) \<and> length (oq_entries q) \<le> oq_max q
   \<and> (\<forall>k. k \<in> set (oq_order q) \<longleftrightarrow> map_of (oq_entries q) k \<noteq> None \<and> b \<noteq> Some k)
   \<and> (\<forall>k. b = Some k \<longrightarrow> map_of (oq_entries q) k \<noteq> None)
   \<and> (\<forall>k e. map_of (oq_entries q) k = Some e \<longrightarrow> (oe_inflight e \<longleftrightarrow> b = Some k))"

text \<open>What is held, or was submitted, is the newest task; the generation tells
  whether the task in flight is still the newest.\<close>

definition ov_ghost :: "'a ov_sys \<Rightarrow> bool" where
  "ov_ghost s \<longleftrightarrow>
     (\<forall>k e. map_of (oq_entries (os_q s)) k = Some e \<longrightarrow>
        os_newest s k = Some (oe_task e) \<and> unat (oe_generation e) \<le> os_accepted s)
   \<and> (\<forall>k. map_of (oq_entries (os_q s)) k = None \<longrightarrow> os_newest s k = os_submitted s k)
   \<and> (\<forall>k g t e. os_pc s = Submitting k g t \<longrightarrow> map_of (oq_entries (os_q s)) k = Some e \<longrightarrow>
        unat g \<le> unat (oe_generation e) \<and> (oe_generation e = g \<longrightarrow> oe_task e = t))"

definition ov_awake :: "'a ov_sys \<Rightarrow> bool" where
  "ov_awake s \<longleftrightarrow> (os_pc s \<in> {Selecting, Retrying} \<and> oq_order (os_q s) \<noteq> [] \<longrightarrow> oq_wake (os_q s) \<or> 0 < os_pending s)"

definition ov_inv :: "'a ov_sys \<Rightarrow> bool" where
  "ov_inv s \<longleftrightarrow> ov_shape (os_q s) (busy (os_pc s)) \<and> ov_awake s \<and> (os_accepted s < 2 ^ 64 \<longrightarrow> ov_ghost s)"

section \<open>The operations\<close>

lemma busy_simps [simp]:
  "busy Selecting = None" "busy Looping = None" "busy Retrying = None" "busy Returned = None"
  "busy (Submitting k g t) = Some k"
  by (simp_all add: busy_def)

lemma ov_shape_frame [simp]:
  "ov_shape (q\<lparr>oq_wake := w\<rparr>) b = ov_shape q b" "ov_shape (q\<lparr>oq_closed := c, oq_stop := d\<rparr>) b = ov_shape q b"
  by (simp_all add: ov_shape_def)

text \<open>An offer in the three ways it can go.\<close>

lemma ov_Offer_cases:
  assumes "ov_Offer key (Some t) q = (q', accepted, wake, dropped)"
  obtains (refused) "q' = q" "\<not> accepted" "\<not> wake"
  | (replaced) e where "map_of (oq_entries q) (ov_key key) = Some e" "accepted" "wake"
      "q' = q\<lparr>oq_entries := aupd (ov_key key) (e\<lparr>oe_task := t, oe_generation := oe_generation e + 1\<rparr>) (oq_entries q)\<rparr>"
  | (added) "map_of (oq_entries q) (ov_key key) = None" "length (oq_entries q) < oq_max q" "accepted" "wake"
      "q' = q\<lparr>oq_entries := aupd (ov_key key) \<lparr>oe_task = t, oe_generation = 1, oe_inflight = False\<rparr> (oq_entries q),
              oq_order := oq_order q @ [ov_key key]\<rparr>"
proof (cases "oq_closed q")
  case True
  then have "ov_Offer key (Some t) q = (q, False, False, None)" by (simp add: ov_Offer_def Let_def)
  with assms show ?thesis by (intro refused) simp_all
next
  case open_q: False
  show ?thesis
  proof (cases "map_of (oq_entries q) (ov_key key)")
    case None
    show ?thesis
    proof (cases "oq_max q \<le> length (oq_entries q)")
      case True
      with None open_q have "ov_Offer key (Some t) q = (q, False, False, Some (ov_key key))"
        by (simp add: ov_Offer_def Let_def)
      with assms show ?thesis by (intro refused) simp_all
    next
      case False
      with None open_q have "ov_Offer key (Some t) q = (q\<lparr>oq_entries := aupd (ov_key key)
          \<lparr>oe_task = t, oe_generation = 1, oe_inflight = False\<rparr> (oq_entries q), oq_order := oq_order q @ [ov_key key]\<rparr>, True, True, None)"
        by (simp add: ov_Offer_def Let_def)
      with assms None False show ?thesis by (intro added) (simp_all del: akeys_aupd_new)
    qed
  next
    case (Some e)
    with open_q have "ov_Offer key (Some t) q = (q\<lparr>oq_entries := aupd (ov_key key)
        (e\<lparr>oe_task := t, oe_generation := oe_generation e + 1\<rparr>) (oq_entries q)\<rparr>, True, True, None)"
      by (simp add: ov_Offer_def Let_def)
    with assms Some show ?thesis by (intro replaced [of e]) (simp_all del: akeys_aupd_mem)
  qed
qed

lemma length_aupd_old: "map_of m k \<noteq> None \<Longrightarrow> length (aupd k v m) = length m"
  by (simp add: map_of_None_iff)

lemma length_aupd_new: "map_of m k = None \<Longrightarrow> length (aupd k v m) = Suc (length m)"
  by (simp add: map_of_None_iff)

lemma shape_Offer:
  assumes "ov_shape q b" and "ov_Offer key (Some t) q = (q', accepted, wake, dropped)"
  shows "ov_shape q' b"
  using assms(2)
proof (cases rule: ov_Offer_cases)
  case refused
  then show ?thesis using assms(1) by simp
next
  case (replaced e)
  then show ?thesis using assms(1) by (auto simp: ov_shape_def length_aupd_old simp del: length_aupd akeys_aupd_new akeys_aupd_mem map_of_eq_Some_iff map_of_eq_None_iff not_None_eq)
next
  case added
  then show ?thesis using assms(1) by (auto simp: ov_shape_def length_aupd_new simp del: length_aupd akeys_aupd_new akeys_aupd_mem map_of_eq_Some_iff map_of_eq_None_iff not_None_eq)
qed

lemma ov_next_shape:
  assumes "ov_shape q None"
  shows "ov_next q = (case oq_order q of
      [] \<Rightarrow> (None, q)
    | k # ks \<Rightarrow> (let e = the (map_of (oq_entries q) k)
        in (Some (k, e\<lparr>oe_inflight := True\<rparr>),
            q\<lparr>oq_order := ks, oq_entries := aupd k (e\<lparr>oe_inflight := True\<rparr>) (oq_entries q)\<rparr>)))"
proof (cases "oq_order q")
  case Nil
  then show ?thesis by (simp add: ov_next_def)
next
  case (Cons k ks)
  then have "k \<in> set (oq_order q)" by simp
  then have "map_of (oq_entries q) k \<noteq> None" using assms unfolding ov_shape_def by blast
  then obtain e where e: "map_of (oq_entries q) k = Some e" by blast
  then have "\<not> oe_inflight e" using assms unfolding ov_shape_def by blast
  with e Cons show ?thesis by (simp add: ov_next_def)
qed

lemma shape_take:
  assumes "ov_shape q None" and "oq_order q = k # ks" and "map_of (oq_entries q) k = Some e"
  shows "ov_shape (q\<lparr>oq_order := ks, oq_entries := aupd k (e\<lparr>oe_inflight := True\<rparr>) (oq_entries q)\<rparr>) (Some k)"
proof -
  have "j \<in> set ks \<longleftrightarrow> map_of (oq_entries q) j \<noteq> None \<and> j \<noteq> k" for j
    using assms(1,2) unfolding ov_shape_def by (metis distinct.simps(2) option.distinct(1) set_ConsD list.set_intros)
  then show ?thesis using assms by (auto simp: ov_shape_def length_aupd_old simp del: length_aupd akeys_aupd_new akeys_aupd_mem map_of_eq_Some_iff map_of_eq_None_iff not_None_eq)
qed

text \<open>\<open>finish\<close> on the key in flight: submitted and still the newest, or requeued.\<close>

lemma ov_finish_cases:
  assumes "map_of (oq_entries q) k = Some e"
  shows "ov_finish k g submitted q =
    (if submitted \<and> oe_generation e = g then q\<lparr>oq_entries := adel k (oq_entries q)\<rparr>
     else q\<lparr>oq_entries := aupd k (e\<lparr>oe_inflight := False\<rparr>) (oq_entries q), oq_order := oq_order q @ [k], oq_wake := True\<rparr>)"
  using assms by (auto simp: ov_finish_def ov_signal_def Let_def)

lemma shape_finish:
  assumes "ov_shape q (Some k)" and "map_of (oq_entries q) k = Some e"
  shows "ov_shape (q\<lparr>oq_entries := adel k (oq_entries q)\<rparr>) None"
    and "ov_shape (q\<lparr>oq_entries := aupd k (e\<lparr>oe_inflight := False\<rparr>) (oq_entries q), oq_order := oq_order q @ [k], oq_wake := True\<rparr>) None"
  using assms length_adel_le [of k "oq_entries q"] by (auto simp: ov_shape_def length_aupd_old simp del: length_aupd akeys_aupd_new akeys_aupd_mem map_of_eq_Some_iff map_of_eq_None_iff not_None_eq)

section \<open>Every step keeps the invariant\<close>

lemma unat_Suc_word: "unat (w :: 64 word) < n \<Longrightarrow> n < 2 ^ 64 \<Longrightarrow> unat (w + 1) = unat w + 1"
  by (simp add: unat_word_ariths)

text \<open>What an accepted offer does to the ghosts: the entry it writes holds the newest
  task, under a generation no task in flight has.\<close>

lemma ghost_accepted:
  assumes "ov_ghost s" and "map_of m' = (map_of (oq_entries (os_q s)))(k \<mapsto> e')" and "oe_task e' = t"
    and "unat (oe_generation e') \<le> Suc (os_accepted s)"
    and "\<And>g t'. os_pc s = Submitting k g t' \<Longrightarrow> unat g < unat (oe_generation e')"
    and "oq_entries q = m'"
  shows "ov_ghost (s\<lparr>os_q := q, os_pending := p, os_accepted := Suc (os_accepted s), os_newest := (os_newest s)(k \<mapsto> t)\<rparr>)"
proof -
  have held: "os_newest s j = Some (oe_task e)" "unat (oe_generation e) \<le> os_accepted s"
    if "map_of (oq_entries (os_q s)) j = Some e" for j e
    using assms(1) that unfolding ov_ghost_def by blast+
  have gone: "os_newest s j = os_submitted s j" if "map_of (oq_entries (os_q s)) j = None" for j
    using assms(1) that unfolding ov_ghost_def by blast
  have flight: "unat g \<le> unat (oe_generation e) \<and> (oe_generation e = g \<longrightarrow> oe_task e = t')"
    if "os_pc s = Submitting j g t'" "map_of (oq_entries (os_q s)) j = Some e" for j g t' e
    using assms(1) that unfolding ov_ghost_def by blast
  show ?thesis unfolding ov_ghost_def
    using assms(2-6) held gone flight by (auto simp: le_SucI split: if_splits)
qed

lemma ov_inv_offer:
  assumes "ov_inv s" and off: "ov_Offer key (Some t) (os_q s) = (q, accepted, wake, dropped)"
  shows "ov_inv (s\<lparr>os_q := q, os_pending := os_pending s + of_bool wake, os_accepted := os_accepted s + of_bool accepted,
       os_newest := (if accepted then (os_newest s)(ov_key key \<mapsto> t) else os_newest s)\<rparr>)" (is "ov_inv ?s")
proof -
  have sh: "ov_shape q (busy (os_pc s))" and sh0: "ov_shape (os_q s) (busy (os_pc s))"
    using assms shape_Offer by (auto simp: ov_inv_def)
  from off show ?thesis
  proof (cases rule: ov_Offer_cases)
    case refused
    then show ?thesis using assms(1) by (simp add: ov_inv_def ov_awake_def ov_ghost_def)
  next
    case (replaced e)
    have "ov_ghost ?s" if lt: "Suc (os_accepted s) < 2 ^ 64"
    proof -
      have g: "ov_ghost s" using assms(1) lt by (simp add: ov_inv_def)
      then have le: "unat (oe_generation e) \<le> os_accepted s"
        and fl: "\<And>g t'. os_pc s = Submitting (ov_key key) g t' \<Longrightarrow> unat g \<le> unat (oe_generation e)"
        using replaced(1) unfolding ov_ghost_def by blast+
      have "unat (oe_generation e + 1) = unat (oe_generation e) + 1"
        using le lt by (intro unat_Suc_word [of _ "Suc (os_accepted s)"]) simp_all
      with le fl replaced show ?thesis
        using ghost_accepted [OF g, where k = "ov_key key" and t = t and q = q and p = "Suc (os_pending s)"
            and e' = "e\<lparr>oe_task := t, oe_generation := oe_generation e + 1\<rparr>"] by fastforce
    qed
    with replaced sh show ?thesis by (simp add: ov_inv_def ov_awake_def)
  next
    case added
    have nb: "os_pc s \<noteq> Submitting (ov_key key) g t'" for g t'
    proof
      assume "os_pc s = Submitting (ov_key key) g t'"
      then show False using sh0 added(1) unfolding ov_shape_def by fastforce
    qed
    have "ov_ghost ?s" if lt: "Suc (os_accepted s) < 2 ^ 64"
    proof -
      have g: "ov_ghost s" using assms(1) lt by (simp add: ov_inv_def)
      show ?thesis using added nb ghost_accepted [OF g, where k = "ov_key key" and t = t and q = q
            and p = "Suc (os_pending s)" and e' = "\<lparr>oe_task = t, oe_generation = 1, oe_inflight = False\<rparr>"]
        by (simp del: akeys_aupd_new)
    qed
    with added sh show ?thesis by (simp add: ov_inv_def ov_awake_def del: akeys_aupd_new)
  qed
qed

lemma ov_inv_take:
  assumes "ov_inv s" and "os_pc s = Looping" and "ov_next (os_q s) = (Some (key, entry), q)"
  shows "ov_inv (s\<lparr>os_q := q, os_pc := Submitting key (oe_generation entry) (oe_task entry)\<rparr>)"
proof -
  have sh: "ov_shape (os_q s) None" using assms by (simp add: ov_inv_def)
  obtain ks where o: "oq_order (os_q s) = key # ks"
    and q: "entry = (the (map_of (oq_entries (os_q s)) key))\<lparr>oe_inflight := True\<rparr>"
      "q = (os_q s)\<lparr>oq_order := ks, oq_entries := aupd key entry (oq_entries (os_q s))\<rparr>"
    using assms(3) ov_next_shape [OF sh] by (cases "oq_order (os_q s)") (auto simp: Let_def)
  have "map_of (oq_entries (os_q s)) key \<noteq> None" using sh o unfolding ov_shape_def by (metis list.set_intros(1))
  then obtain e where e: "map_of (oq_entries (os_q s)) key = Some e" by blast
  have "ov_ghost (s\<lparr>os_q := q, os_pc := Submitting key (oe_generation entry) (oe_task entry)\<rparr>)" if "ov_ghost s"
    using that q e unfolding ov_ghost_def by (auto split: if_splits)
  then show ?thesis using assms(1) shape_take [OF sh o e] q e by (simp add: ov_inv_def ov_awake_def)
qed

lemma ov_inv_finish:
  assumes "ov_inv s" and pc: "os_pc s = Submitting key g t"
    and fin: "submitted \<and> pc' = Looping \<and> sub = (os_submitted s)(key \<mapsto> t) \<or> \<not> submitted \<and> pc' = Retrying \<and> sub = os_submitted s"
  shows "ov_inv (s\<lparr>os_q := ov_finish key g submitted (os_q s), os_pc := pc', os_submitted := sub\<rparr>)"
proof -
  have sh: "ov_shape (os_q s) (Some key)" using assms by (simp add: ov_inv_def)
  then have "map_of (oq_entries (os_q s)) key \<noteq> None" unfolding ov_shape_def by blast
  then obtain e where e: "map_of (oq_entries (os_q s)) key = Some e" by blast
  have "ov_ghost (s\<lparr>os_q := ov_finish key g submitted (os_q s), os_pc := pc', os_submitted := sub\<rparr>)" if gh: "ov_ghost s"
  proof -
    have "oe_generation e = g \<longrightarrow> oe_task e = t" and "os_newest s key = Some (oe_task e)"
      using gh pc e unfolding ov_ghost_def by blast+
    then show ?thesis using gh e fin unfolding ov_ghost_def
      by (auto simp: ov_finish_cases [OF e] split: if_splits)
  qed
  then show ?thesis using assms(1) fin shape_finish [OF sh e]
    by (auto simp: ov_inv_def ov_awake_def ov_finish_cases [OF e] simp del: akeys_aupd_mem)
qed

lemma ov_inv_step: "ov_step s s' \<Longrightarrow> ov_inv s \<Longrightarrow> ov_inv s'"
proof (induction rule: ov_step.induct)
  case (ov_offer key t s q accepted wake dropped)
  then show ?case by (intro ov_inv_offer)
next
  case (ov_empty s q)
  then have "oq_order (os_q s) = []" "q = os_q s"
    using ov_next_shape [of "os_q s"] by (auto simp: ov_inv_def Let_def split: list.splits)
  then show ?case using ov_empty by (simp add: ov_inv_def ov_awake_def ov_ghost_def)
next
  case (ov_take s key entry q)
  then show ?case by (intro ov_inv_take)
next
  case (ov_accept s key g t)
  then show ?case by (intro ov_inv_finish) simp_all
next
  case (ov_reject s key g t)
  then show ?case using ov_inv_finish [of s key g t False Retrying "os_submitted s"] by simp
next
  case (ov_sig s)
  then show ?case by (simp add: ov_inv_def ov_awake_def ov_ghost_def ov_signal_def)
next
  case (ov_cls s)
  then show ?case by (simp add: ov_inv_def ov_awake_def ov_ghost_def ov_close_def)
next
  case (ov_cancel s)
  then show ?case by (simp add: ov_inv_def ov_awake_def ov_ghost_def)
next
  case (ov_exit s)
  then show ?case by (auto simp: ov_inv_def ov_awake_def ov_ghost_def)
next
  case (ov_woken s)
  then show ?case by (simp add: ov_inv_def ov_awake_def ov_ghost_def)
next
  case (ov_retry s)
  then show ?case by (simp add: ov_inv_def ov_awake_def ov_ghost_def)
qed

lemma ov_inv_reachable: "ov_step\<^sup>*\<^sup>* (ov_init mx) s \<Longrightarrow> ov_inv s"
proof (induction rule: rtranclp_induct)
  case base
  show ?case by (simp add: ov_inv_def ov_init_def NewOverflowQueue_def ov_shape_def ov_awake_def ov_ghost_def)
next
  case (step s s')
  then show ?case using ov_inv_step by blast
qed

text \<open>C10: In every state the offers, the dispatcher and the shutdown can reach the
  queue holds at most its maximum of identities, each once; the newest accepted
  task of an identity is held, unless it is the one the pool accepted last (for
  fewer than \<open>2 ^ 64\<close> offers, the range of the generation counter); and a
  dispatcher that sleeps while tasks wait has a token or a signal on its way.\<close>

theorem OverflowQueue_keeps_newest:
  assumes "ov_step\<^sup>*\<^sup>* (ov_init mx) s"
  shows "length (oq_entries (os_q s)) \<le> oq_max (os_q s) \<and> awf (oq_entries (os_q s)) \<and> distinct (oq_order (os_q s))
    \<and> (os_accepted s < 2 ^ 64 \<longrightarrow> os_newest s k =
         (case map_of (oq_entries (os_q s)) k of Some e \<Rightarrow> Some (oe_task e) | None \<Rightarrow> os_submitted s k))
    \<and> (os_pc s = Selecting \<and> oq_order (os_q s) \<noteq> [] \<longrightarrow> oq_wake (os_q s) \<or> 0 < os_pending s)"
  using ov_inv_reachable [OF assms]
  by (auto simp: ov_inv_def ov_shape_def ov_ghost_def ov_awake_def split: option.splits)

theorem OverflowQueue_keeps_newest_witness:
  "\<exists>s. ov_step\<^sup>*\<^sup>* (ov_init 2) s \<and> os_newest s ''a'' = Some (7 :: nat) \<and> length (oq_entries (os_q s)) \<le> 2"
proof -
  let ?q = "\<lparr>oq_entries = [(''a'', \<lparr>oe_task = 7, oe_generation = 1, oe_inflight = False\<rparr>)], oq_order = [''a''],
      oq_max = 2, oq_wake = False, oq_closed = False, oq_stop = False\<rparr> :: nat OverflowQueue"
  let ?s = "(ov_init 2)\<lparr>os_q := ?q, os_pending := 1, os_accepted := 1, os_newest := [''a'' \<mapsto> 7]\<rparr>"
  have "ov_Offer ''a'' (Some 7) (os_q (ov_init 2)) = (?q, True, True, None)"
    by (simp add: ov_Offer_def ov_init_def NewOverflowQueue_def ov_key_def Let_def)
  from ov_step.ov_offer [OF this] have "ov_step (ov_init 2) ?s"
    by (simp add: ov_init_def ov_key_def)
  then have r: "ov_step\<^sup>*\<^sup>* (ov_init 2) ?s" by blast
  from OverflowQueue_keeps_newest [OF r, of "''a''"] r show ?thesis by (intro exI [of _ ?s]) simp
qed

end
