(* ===== verification/K8s_Provider.thy ===== *)
theory K8s_Provider
  imports Event_Worker K8s_Convert Canonical_Payload Overflow_Queue Provider_Common "HOL-Library.Multiset"
begin

text \<open>
  The Kubernetes provider of src/pkg/providers/k8s/k8s.go: pod events become
  instances, pass the provider's cache and are handed to the worker; the cache is
  compared with the remote registry and published as a full snapshot.

  The code outside the repository is gathered in \<open>k8s_env\<close>: the tree behind the
  cache, the worker pool, and the JSON text of an instance.  Tasks given to the
  pool are data, so that what was accepted, requeued or dropped can be stated.
  The goroutines of the provider meet at its lock; where an operation releases the
  lock and reads the source or the registry, a parameter \<open>others\<close> is what the other
  goroutines do to the state in the meantime.  The order in which Go ranges over
  a map is the parameter \<open>range_order\<close>.  A result \<^term>\<open>None\<close> is a panic.  A task
  carries the instance as it is when the task is built.
\<close>

section \<open>State\<close>

datatype k8s_task = SyncTask inst int64 | ReconcileTask inst bool

record ('t, 'p) k8s_env =
  ke_btree :: "'t btree_ops"
  ke_NewCache :: 't
  ke_Submit :: "k8s_task \<Rightarrow> 'p \<Rightarrow> error \<times> 'p"
  ke_Release :: "'p \<Rightarrow> 'p"
  ke_cwd :: "string option"
  ke_marshal :: "inst \<Rightarrow> string option"
  ke_addr :: "inst \<Rightarrow> nat"

record ('t, 'p) k8s =
  k_robot :: robot
  k_stopped :: bool
  k_done :: bool
  k_interval :: int
  k_filters :: "(inst option \<Rightarrow> error) list"
  k_cache :: "'t option"
  k_generation :: "64 word"
  k_emptyConfirmations :: "32 word"
  k_pool :: 'p
  k_overflow :: "k8s_task OverflowQueue option"
  k_recorder :: bool
  k_dropped :: nat
  k_pushAppCodes :: "string list option"
  k_nacosReconcile :: bool

definition FullPushInterval :: int where "FullPushInterval = 21600 * 1000000000"

definition InitInstanceFilters :: "(inst option \<Rightarrow> error) list" where
  "InitInstanceFilters = [prov_instance_filter]"

text \<open>The constructor: \<open>stat\<close> and \<open>build\<close> as for the robot, \<open>newPool\<close> the pool
  constructor.  On a pool error the robot is stopped and dropped.\<close>

definition NewK8SProviderWithDeps ::
  "('t, 'p) k8s_env \<Rightarrow> (string \<Rightarrow> error) \<Rightarrow> (string \<Rightarrow> informer result) \<Rightarrow> 'p result \<Rightarrow> bool \<Rightarrow> int
    \<Rightarrow> string list \<Rightarrow> string list option \<Rightarrow> ('t, 'p) k8s result" where
  "NewK8SProviderWithDeps env stat build newPool has_worker pushInterval configPath pushAppCodes =
    (if \<not> has_worker then Inl (ErrNew ''k8s: worker is required'')
     else if pushInterval < 0 then Inl (ErrNew ''k8s: push interval must be non-negative'')
     else case NewRobot stat build (map (\<lambda>path. \<lparr>cl_ClusterID = [], cl_ConfigPath = path,
         cl_Resources = [\<lparr>rn_Resource = Pods, rn_Namespace = []\<rparr>]\<rparr>) configPath) of
       Inl err \<Rightarrow> Inl err
     | Inr kr \<Rightarrow> (case newPool of
         Inl poolErr \<Rightarrow> Inl (ErrWrap ''k8s: create worker pool'' poolErr)
       | Inr p \<Rightarrow> Inr \<lparr>k_robot = kr, k_stopped = False, k_done = False, k_interval = pushInterval,
           k_filters = InitInstanceFilters, k_cache = Some (ke_NewCache env), k_generation = 0,
           k_emptyConfirmations = 0, k_pool = p, k_overflow = None, k_recorder = False, k_dropped = 0,
           k_pushAppCodes = pushAppCodes, k_nacosReconcile = False\<rparr>))"

definition SetNacosReconcileSource :: "bool \<Rightarrow> ('t, 'p) k8s \<Rightarrow> ('t, 'p) k8s" where
  "SetNacosReconcileSource enabled k = k\<lparr>k_nacosReconcile := enabled\<rparr>"

definition SetQueueDepthReporter :: "bool \<Rightarrow> ('t, 'p) k8s \<Rightarrow> ('t, 'p) k8s" where
  "SetQueueDepthReporter installed k = k\<lparr>k_recorder := installed\<rparr>"

section \<open>Handing tasks to the pool\<close>

definition reportDroppedEvent :: "('t, 'p) k8s \<Rightarrow> ('t, 'p) k8s" where
  "reportDroppedEvent k = (if k_recorder k then k\<lparr>k_dropped := k_dropped k + 1\<rparr> else k)"

definition overflowQueue :: "('t, 'p) k8s \<Rightarrow> k8s_task OverflowQueue" where
  "overflowQueue k = (case k_overflow k of Some q \<Rightarrow> q | None \<Rightarrow> NewOverflowQueue (int (PoolBenchSize * 4)))"

definition requeueEvent :: "string \<Rightarrow> k8s_task \<Rightarrow> ('t, 'p) k8s \<Rightarrow> ('t, 'p) k8s" where
  "requeueEvent key task k = (case ov_Offer key (Some task) (overflowQueue k) of (q, _, wake, dropped) \<Rightarrow>
     let k = k\<lparr>k_overflow := Some (if wake then ov_signal q else q)\<rparr>
     in if dropped \<noteq> None then reportDroppedEvent k else k)"

definition submit_or_requeue ::
  "('t, 'p) k8s_env \<Rightarrow> string \<Rightarrow> k8s_task \<Rightarrow> k8s_task \<Rightarrow> ('t, 'p) k8s \<Rightarrow> ('t, 'p) k8s" where
  "submit_or_requeue env key task again k = (case ke_Submit env task (k_pool k) of (err, p) \<Rightarrow>
     if err = None then k\<lparr>k_pool := p\<rparr> else requeueEvent key again (k\<lparr>k_pool := p\<rparr>))"

definition k8s_buildAndSendEvent :: "('t, 'p) k8s_env \<Rightarrow> inst \<Rightarrow> ('t, 'p) k8s \<Rightarrow> ('t, 'p) k8s" where
  "k8s_buildAndSendEvent env ins k =
     submit_or_requeue env (IdentityKey ins) (ReconcileTask ins False) (ReconcileTask ins True) k"

section \<open>What a task hands to the worker\<close>

definition zero_Event :: Event where
  "zero_Event = \<lparr>ev_Trigger = 0, ev_Data = [], ev_Operate = [], ev_Revalidate = None, ev_Scope = [], ev_BatchID = [],
     ev_Sequence = 0, ev_Identity = [], ev_Revision = 0, ev_EmptyConfirmed = False\<rparr>"

definition k8s_eventSync :: "(inst \<Rightarrow> nat) \<Rightarrow> inst \<Rightarrow> int64 \<Rightarrow> Event" where
  "k8s_eventSync addr ins triggerTime =
    (let seq = (if 0 < Reversion ins then word_of_int (Reversion ins) else 0);
         scope = (if SourceCluster ins \<noteq> [] then SourceCluster ins else ''k8s'')
     in zero_Event\<lparr>ev_Trigger := triggerTime, ev_Data := [Some (addr ins, ins)], ev_Operate := OperateTypeSync,
          ev_Scope := scope, ev_Identity := IdentityKey ins, ev_Revision := Reversion ins, ev_Sequence := seq\<rparr>)"

text \<open>The event of a task run at time \<open>clock\<close>, with the origin reported to the observer.\<close>

definition run_task :: "(inst \<Rightarrow> nat) \<Rightarrow> int64 \<Rightarrow> k8s_task \<Rightarrow> (Event \<times> string) option" where
  "run_task addr clock task = (case task of
      SyncTask ins triggerTime \<Rightarrow> Some (k8s_eventSync addr ins triggerTime, ''event-cache-applied'')
    | ReconcileTask ins again \<Rightarrow>
        if Status ins = 0 then None
        else Some (zero_Event\<lparr>ev_Trigger := clock, ev_Data := [Some (addr ins, ins)], ev_Operate := OperateTypeSync\<rparr>,
               if again then ''reconcile-output-retry'' else ''reconcile-output''))"

record InstanceEventObservation =
  obs_TriggerTime :: int64
  obs_Operate :: string
  obs_Origin :: string
  obs_Instance :: inst

text \<open>\<open>handleWorkerEvent\<close>: what the installed observer sees before the worker handles the
  event.\<close>

definition handleWorkerEvent :: "bool \<Rightarrow> Event \<Rightarrow> string \<Rightarrow> InstanceEventObservation list \<times> Event" where
  "handleWorkerEvent observed event origin =
    ((if observed then map (\<lambda>(_, ins). \<lparr>obs_TriggerTime = ev_Trigger event, obs_Operate = ev_Operate event,
        obs_Origin = origin, obs_Instance = ins\<rparr>) (drop_none (ev_Data event)) else []), event)"

section \<open>The cache\<close>

definition ProcessCache :: "('t, 'p) k8s_env \<Rightarrow> string \<Rightarrow> inst \<Rightarrow> ('t, 'p) k8s \<Rightarrow> ('t, 'p) k8s option" where
  "ProcessCache env event ins k =
    (if event = EventAdd \<or> event = EventUpdate \<or> event = EventDelete then
       (case k_cache k of
          None \<Rightarrow> None
        | Some t \<Rightarrow> Some (k\<lparr>k_cache := Some (snd (cache_ReplaceOrInsert (ke_btree env) (Some ins) t)),
                            k_generation := k_generation k + 1\<rparr>))
     else Some (k\<lparr>k_generation := k_generation k + 1\<rparr>))"

definition cached :: "('t, 'p) k8s_env \<Rightarrow> string \<Rightarrow> ('t, 'p) k8s \<Rightarrow> inst option" where
  "cached env key k = (case k_cache k of None \<Rightarrow> None | Some t \<Rightarrow> cache_Get (ke_btree env) key t)"

definition replaceCacheIfGeneration :: "'t \<Rightarrow> 64 word \<Rightarrow> ('t, 'p) k8s \<Rightarrow> 64 word \<times> bool \<times> ('t, 'p) k8s" where
  "replaceCacheIfGeneration candidate observed k =
    (if k_generation k \<noteq> observed then (k_generation k, False, k)
     else let k = k\<lparr>k_cache := Some candidate, k_generation := k_generation k + 1\<rparr> in (k_generation k, True, k))"

definition active :: "('t, 'p) k8s_env \<Rightarrow> ('t, 'p) k8s \<Rightarrow> inst list" where
  "active env k = (case k_cache k of
      None \<Rightarrow> []
    | Some t \<Rightarrow> filter (\<lambda>item. Status item \<noteq> InstanceStatusOffline) (cache_List (ke_btree env) t))"

definition confirmations :: "('t, 'p) k8s_env \<Rightarrow> bool \<Rightarrow> ('t, 'p) k8s \<Rightarrow> 32 word" where
  "confirmations env advance k =
    (if active env k = [] \<and> advance then k_emptyConfirmations k + 1
     else if active env k \<noteq> [] then 0 else k_emptyConfirmations k)"

definition k8s_snapshotForFullPushMode ::
  "('t, 'p) k8s_env \<Rightarrow> bool \<Rightarrow> ('t, 'p) k8s \<Rightarrow> (inst list \<times> 64 word \<times> bool \<times> bool) \<times> ('t, 'p) k8s" where
  "k8s_snapshotForFullPushMode env advance k =
    ((active env k, k_generation k, True, 3 \<le> confirmations env advance k),
     k\<lparr>k_emptyConfirmations := confirmations env advance k\<rparr>)"

definition ObserveCacheSnapshot :: "('t, 'p) k8s_env \<Rightarrow> ('t, 'p) k8s \<Rightarrow> inst list \<times> 64 word" where
  "ObserveCacheSnapshot env k = (case k_cache k of None \<Rightarrow> ([], 0) | Some _ \<Rightarrow> (active env k, k_generation k))"

definition k8s_VerifyInstance :: "('t, 'p) k8s \<Rightarrow> inst option \<Rightarrow> error" where
  "k8s_VerifyInstance k ins = (case List.map_filter (\<lambda>f. f ins) (k_filters k) of [] \<Rightarrow> None | err # _ \<Rightarrow> Some err)"

definition k8s_GetAll :: "('t, 'p) k8s_env \<Rightarrow> ('t, 'p) k8s \<Rightarrow> inst list option" where
  "k8s_GetAll env k = map_option (List.map_filter (\<lambda>source. case so_Object source of
        PodObj (Some pod) \<Rightarrow>
          (case formatInstanceWithDeps (Some (so_QueueObject source)) (Some pod) (k_pushAppCodes k) of
             None \<Rightarrow> None
           | Some instance' \<Rightarrow> if k8s_VerifyInstance k (Some instance') = None then Some instance' else None)
      | _ \<Rightarrow> None)) (ListSourceObjects (ke_cwd env) Pods (k_robot k))"

definition bootstrapCacheFromSource ::
  "('t, 'p) k8s_env \<Rightarrow> (('t, 'p) k8s \<Rightarrow> ('t, 'p) k8s) \<Rightarrow> ('t, 'p) k8s \<Rightarrow> (bool \<times> ('t, 'p) k8s) option" where
  "bootstrapCacheFromSource env others k =
    (if k_generation k \<noteq> 0 then Some (True, k)
     else case k8s_GetAll env k of
       None \<Rightarrow> None
     | Some all \<Rightarrow>
        let k' = others k in
        if all = [] then Some (False, k')
        else let newCache = fold (\<lambda>item t. snd (cache_ReplaceOrInsert (ke_btree env) (Some item) t)) all (ke_NewCache env);
                 (_, _, k') = replaceCacheIfGeneration newCache (k_generation k) k'
             in Some (True, k'))"

section \<open>Events\<close>

definition hasInstanceDiff :: "inst \<Rightarrow> inst \<Rightarrow> bool" where
  "hasInstanceDiff old new =
    (if Status old = Status new \<and> Status old = 3 then False
     else if Reversion old < Reversion new then True
     else EnvType new \<noteq> EnvType old \<or> State new \<noteq> State old \<or> Status new \<noteq> Status old
       \<or> EnvGroup new \<noteq> EnvGroup old \<or> InstanceId new \<noteq> InstanceId old \<or> Ip new \<noteq> Ip old
       \<or> Enabled new \<noteq> Enabled old)"

definition obj2InstanceId :: "QueueObject \<Rightarrow> string" where
  "obj2InstanceId obj =
    (if qo_Key obj \<noteq> [] then (case split_on (CHR ''/'') [] (qo_Key obj) of _ # b # _ \<Rightarrow> b | _ \<Rightarrow> []) else [])"

text \<open>The branch of \<open>pod2Instance\<close> for a pod that is in the informer's store.\<close>

definition recover_offline :: "('t, 'p) k8s_env \<Rightarrow> ('t, 'p) k8s \<Rightarrow> inst \<Rightarrow> inst option" where
  "recover_offline env k ins =
    (if Status ins = InstanceStatusOffline \<and> Ip ins = [] then
       (case cached env (IdentityKey ins) k of
          None \<Rightarrow> None
        | Some c \<Rightarrow> if Ip c = [] then None
            else Some (c\<lparr>Status := InstanceStatusOffline, State := InstanceStateTerminated, Enabled := False,
                         Reversion := Reversion ins\<rparr>))
     else Some ins)"

definition present_pod ::
  "('t, 'p) k8s_env \<Rightarrow> QueueObject \<Rightarrow> pod \<Rightarrow> ('t, 'p) k8s \<Rightarrow> (inst option \<times> ('t, 'p) k8s) option" where
  "present_pod env obj pod k = (case formatInstanceWithDeps (Some obj) (Some pod) (k_pushAppCodes k) of
      None \<Rightarrow> Some (None, k)
    | Some ins \<Rightarrow>
       if k8s_VerifyInstance k (Some ins) \<noteq> None then Some (None, k)
       else case recover_offline env k ins of
         None \<Rightarrow> Some (None, k)
       | Some ins \<Rightarrow>
          if (case cached env (IdentityKey ins) k of None \<Rightarrow> True | Some c \<Rightarrow> hasInstanceDiff c ins)
          then map_option (\<lambda>k. (Some ins, k)) (ProcessCache env (qo_Event obj) ins k)
          else Some (None, k))"

text \<open>The branch for a pod that is gone: only a delete event acts.\<close>

definition delete_key :: "QueueObject \<Rightarrow> string" where
  "delete_key obj = (if qo_ClusterID obj = [] \<or> qo_UID obj = [] then ''k8s:'' @ obj2InstanceId obj
     else qo_ClusterID obj @ ''/'' @ qo_UID obj)"

definition missing_pod ::
  "('t, 'p) k8s_env \<Rightarrow> QueueObject \<Rightarrow> ('t, 'p) k8s \<Rightarrow> (inst option \<times> ('t, 'p) k8s) option" where
  "missing_pod env obj k =
    (if qo_Event obj = EventDelete then
       (case cached env (delete_key obj) k of
          None \<Rightarrow> Some (None, k)
        | Some ins \<Rightarrow>
            if Status ins = InstanceStatusOffline then Some (None, k)
            else let ins = ins\<lparr>Status := InstanceStatusOffline\<rparr>
                 in map_option (\<lambda>k. (Some ins, k)) (ProcessCache env EventDelete ins k))
     else Some (None, k))"

definition pod2Instance ::
  "('t, 'p) k8s_env \<Rightarrow> QueueObject \<Rightarrow> ('t, 'p) k8s \<Rightarrow> (inst option \<times> ('t, 'p) k8s) option" where
  "pod2Instance env obj k =
    (let (items, ok) = (if qo_ClusterID obj = [] then GetByKey Pods (qo_Key obj) (k_robot k)
           else GetByClusterKey (ke_cwd env) Pods (qo_ClusterID obj) (qo_Key obj) (k_robot k))
     in case items of
       [] \<Rightarrow> missing_pod env obj k
     | [item] \<Rightarrow>
         if \<not> ok then missing_pod env obj k
         else if qo_UID obj \<noteq> [] then
           (case item of
              PodObj None \<Rightarrow> None
            | PodObj (Some pod) \<Rightarrow> if p_UID pod \<noteq> qo_UID obj then missing_pod env obj k else present_pod env obj pod k
            | _ \<Rightarrow> missing_pod env obj k)
         else (case item of PodObj (Some pod) \<Rightarrow> present_pod env obj pod k | _ \<Rightarrow> Some (None, k))
     | _ # _ # _ \<Rightarrow> Some (None, k))"

text \<open>The body of the watch loop for one popped object.\<close>

definition handle_popped :: "('t, 'p) k8s_env \<Rightarrow> QueueObject \<Rightarrow> ('t, 'p) k8s \<Rightarrow> ('t, 'p) k8s option" where
  "handle_popped env obj k = (case pod2Instance env obj k of
      None \<Rightarrow> None
    | Some (None, k) \<Rightarrow> Some k
    | Some (Some ins, k) \<Rightarrow>
        let task = SyncTask ins (qo_CreateAt obj) in Some (submit_or_requeue env (IdentityKey ins) task task k))"

section \<open>Reconciliation\<close>

text \<open>What a comparison does, in order: events to send and notices to raise (their
  titles).\<close>

datatype k8s_action = SendEvent inst | Notice string

text \<open>The comparison of the local instances, in the order in which the map is ranged
  over, with the remote index.  The two flags ask for the notices of case 1 and case
  2; what is left of the index is remote-only.\<close>

fun compare_loop ::
  "bool \<Rightarrow> insts \<Rightarrow> (string \<times> inst) list \<Rightarrow> (string \<times> inst) list
    \<Rightarrow> (k8s_action list \<times> bool \<times> bool \<times> (string \<times> inst) list) option" where
  "compare_loop nr items [] servMap = Some ([], False, False, servMap)"
| "compare_loop nr items ((_, k8sIns) # rest) servMap = (case LookupIdentity servMap items k8sIns of
      Some servIns \<Rightarrow>
        (case (if nr then DiffNacosReconcile (Some k8sIns) (Some servIns) else Some (hasInstanceDiff servIns k8sIns)) of
           None \<Rightarrow> None
         | Some diff \<Rightarrow>
            (case compare_loop nr items rest (adel (IdentityKey servIns) servMap) of
               None \<Rightarrow> None
             | Some (acts, bothExist, k8sExist, left) \<Rightarrow>
                 Some ((if diff \<and> nr \<and> Reversion k8sIns < Reversion servIns
                        then [Notice ''Forged remote reversion''] else [])
                       @ (if diff then [SendEvent k8sIns] else []) @ acts, diff \<or> bothExist, k8sExist, left)))
    | None \<Rightarrow>
        (case compare_loop nr items rest servMap of
           None \<Rightarrow> None
         | Some (acts, bothExist, k8sExist, left) \<Rightarrow>
             Some ((if Status k8sIns = 1 then [SendEvent k8sIns] else []) @ acts, bothExist,
                   Status k8sIns = 1 \<or> k8sExist, left)))"

definition terminated :: "inst \<Rightarrow> inst" where
  "terminated servIns = servIns\<lparr>Enabled := False, Status := 3, State := InstanceStateTerminated\<rparr>"

abbreviation inconsistency :: k8s_action where
  "inconsistency \<equiv> Notice ''Instance data inconsistency''"

text \<open>The filter of the remote list by application code: one copy of an instance for
  every code of the configuration that it has.  A nil instance is dereferenced.\<close>

definition filter_app_codes :: "string list option \<Rightarrow> insts \<Rightarrow> insts option" where
  "filter_app_codes pushAppCodes items = (case pushAppCodes of
      None \<Rightarrow> Some items
    | Some codes \<Rightarrow>
       if codes = [] then Some items
       else if None \<in> set items then None
       else Some (concat (map (\<lambda>ins. map (\<lambda>_. ins) (filter (\<lambda>appcode. ins \<noteq> None \<and> appcode = AppCode (the ins)) codes)) items)))"

definition compare_lists ::
  "((string \<times> inst) list \<Rightarrow> (string \<times> inst) list) \<Rightarrow> bool \<Rightarrow> inst list \<Rightarrow> insts \<Rightarrow> k8s_action list option" where
  "compare_lists range_order nr all items =
    (let (servMap, servAmbiguous) = StrictListToMap items;
         (k8sMap, k8sAmbiguous) = StrictListToMap (map Some all)
     in if servAmbiguous \<noteq> [] \<or> k8sAmbiguous \<noteq> [] then Some []
        else case compare_loop nr items (range_order k8sMap) servMap of
          None \<Rightarrow> None
        | Some (acts, bothExist, k8sExist, left) \<Rightarrow>
            Some (acts @ (if bothExist then [inconsistency] else []) @ (if k8sExist then [inconsistency] else [])
              @ (if left \<noteq> [] \<and> \<not> nr
                 then map (\<lambda>(_, servIns). SendEvent (terminated servIns)) (range_order left) @ [inconsistency] else [])))"

text \<open>From the answer of the registry to the actions; \<open>moved\<close> tells that the
  generation of the cache changed during the read.\<close>

definition compare_remote ::
  "((string \<times> inst) list \<Rightarrow> (string \<times> inst) list) \<Rightarrow> bool \<Rightarrow> string list option \<Rightarrow> inst list
    \<Rightarrow> insts option \<times> error \<Rightarrow> bool \<Rightarrow> k8s_action list option" where
  "compare_remote range_order nr pushAppCodes all remote moved = (case remote of (list', err) \<Rightarrow>
     if err \<noteq> None \<and> nr then Some []
     else if moved then Some []
     else let items = (case list' of None \<Rightarrow> [] | Some l \<Rightarrow> l) in
       if items = [] then (if nr then Some [] else Some (map SendEvent all))
       else case filter_app_codes pushAppCodes items of
         None \<Rightarrow> None
       | Some items \<Rightarrow> compare_lists range_order nr all items)"

definition perform :: "('t, 'p) k8s_env \<Rightarrow> k8s_action list \<Rightarrow> ('t, 'p) k8s \<Rightarrow> ('t, 'p) k8s" where
  "perform env acts k = fold (\<lambda>act k. case act of SendEvent ins \<Rightarrow> k8s_buildAndSendEvent env ins k | Notice _ \<Rightarrow> k) acts k"

text \<open>\<open>CompareAndFlush\<close>: the actions and the state.  \<open>others\<close> acts between the read of the
  source and the installation of the bootstrap cache, \<open>others'\<close> during the read of the
  registry.\<close>

definition k8s_CompareAndFlush ::
  "('t, 'p) k8s_env \<Rightarrow> ((string \<times> inst) list \<Rightarrow> (string \<times> inst) list)
    \<Rightarrow> (('t, 'p) k8s \<Rightarrow> ('t, 'p) k8s) \<Rightarrow> (('t, 'p) k8s \<Rightarrow> ('t, 'p) k8s) \<Rightarrow> insts option \<times> error
    \<Rightarrow> ('t, 'p) k8s \<Rightarrow> (k8s_action list \<times> ('t, 'p) k8s) option" where
  "k8s_CompareAndFlush env range_order others others' remote k = (case bootstrapCacheFromSource env others k of
      None \<Rightarrow> None
    | Some (False, k) \<Rightarrow> Some ([], k)
    | Some (True, k) \<Rightarrow>
       let ((all, snapshotGeneration, _, _), k) = k8s_snapshotForFullPushMode env False k in
       if all = [] then Some ([], k)
       else let k' = others' k in
         (case compare_remote range_order (k_nacosReconcile k') (k_pushAppCodes k') all remote
                 (k_generation k' \<noteq> snapshotGeneration) of
            None \<Rightarrow> None
          | Some acts \<Rightarrow> Some (acts, perform env acts k')))"

section \<open>Full push\<close>

text \<open>\<open>emitSyncAll\<close>: the event, whose revalidation reads the state at the moment it is
  called (\<open>hist\<close>), and the state with the counter of empty snapshots.\<close>

definition k8s_emitSyncAll ::
  "('t, 'p) k8s_env \<Rightarrow> int64 \<Rightarrow> (moment \<Rightarrow> ('t, 'p) k8s) \<Rightarrow> ('t, 'p) k8s \<Rightarrow> Event \<times> ('t, 'p) k8s" where
  "k8s_emitSyncAll env clock hist k =
    (let ((all, generation, _, emptyConfirmed), k) = k8s_snapshotForFullPushMode env True k
     in (zero_Event\<lparr>ev_Trigger := clock, ev_Data := map (\<lambda>i. Some (ke_addr env i, i)) all,
           ev_Operate := OperateTypeSyncAll, ev_Scope := ''k8s'',
           ev_BatchID := fullBatchID (ke_marshal env) ''k8s'' (map Some all),
           ev_Sequence := generation, ev_EmptyConfirmed := emptyConfirmed,
           ev_Revalidate := Some (\<lambda>m. Some (map Some (fst (fst (k8s_snapshotForFullPushMode env False (hist m))))))\<rparr>, k))"

definition flushInstances ::
  "('t, 'p) k8s_env \<Rightarrow> (('t, 'p) k8s \<Rightarrow> ('t, 'p) k8s) \<Rightarrow> int64 \<Rightarrow> (moment \<Rightarrow> ('t, 'p) k8s) \<Rightarrow> ('t, 'p) k8s
    \<Rightarrow> (Event option \<times> ('t, 'p) k8s) option" where
  "flushInstances env others clock hist k = (case bootstrapCacheFromSource env others k of
      None \<Rightarrow> None
    | Some (ok, k) \<Rightarrow> if \<not> ok then Some (None, k)
        else let (e, k) = k8s_emitSyncAll env clock hist k in Some (Some e, k))"

text \<open>The start of \<open>monitor\<close> after the informers have synced, and one tick of the
  interval: the comparison, then the full push (at the start only in nacos mode).\<close>

definition compare_then_push ::
  "('t, 'p) k8s_env \<Rightarrow> ((string \<times> inst) list \<Rightarrow> (string \<times> inst) list)
    \<Rightarrow> (('t, 'p) k8s \<Rightarrow> ('t, 'p) k8s) \<Rightarrow> (('t, 'p) k8s \<Rightarrow> ('t, 'p) k8s) \<Rightarrow> insts option \<times> error
    \<Rightarrow> bool \<Rightarrow> int64 \<Rightarrow> (moment \<Rightarrow> ('t, 'p) k8s) \<Rightarrow> ('t, 'p) k8s \<Rightarrow> (Event option \<times> ('t, 'p) k8s) option" where
  "compare_then_push env range_order others others' remote starting clock hist k =
    (case k8s_CompareAndFlush env range_order others others' remote k of
       None \<Rightarrow> None
     | Some (_, k) \<Rightarrow> if starting \<and> \<not> k_nacosReconcile k then Some (None, k)
         else let (e, k) = k8s_emitSyncAll env clock hist k in Some (Some e, k))"

text \<open>The interval of the ticker, in nanoseconds of 64 bits; \<^term>\<open>None\<close> is the refusal.\<close>

definition full_push_interval :: "('t, 'p) k8s \<Rightarrow> int option" where
  "full_push_interval k =
    (let interval = (if k_interval k \<noteq> 0 then sint (word_of_int (k_interval k * 1000000000) :: 64 word) else FullPushInterval)
     in if interval \<le> 0 then None else Some interval)"

text \<open>\<open>shutdown\<close>; the number is what the overflow queue still holds.\<close>

definition k8s_shutdown :: "('t, 'p) k8s_env \<Rightarrow> ('t, 'p) k8s \<Rightarrow> nat \<times> ('t, 'p) k8s" where
  "k8s_shutdown env k =
    (let q = map_option ov_close (k_overflow k)
     in (ov_Len q, k\<lparr>k_done := True, k_stopped := True, k_robot := rb_Stop (k_robot k), k_overflow := q,
           k_pool := ke_Release env (k_pool k)\<rparr>))"

section \<open>The generation fence\<close>

text \<open>The watch loop over a sequence of popped objects; it stops where the body panics.\<close>

fun pops :: "('t, 'p) k8s_env \<Rightarrow> QueueObject list \<Rightarrow> ('t, 'p) k8s \<Rightarrow> ('t, 'p) k8s" where
  "pops env [] k = k"
| "pops env (obj # objs) k = (case handle_popped env obj k of None \<Rightarrow> k | Some k' \<Rightarrow> pops env objs k')"

text \<open>What handing a task to the pool leaves alone.\<close>

lemma requeueEvent_frame [simp]:
  "k_cache (requeueEvent key task k) = k_cache k" "k_generation (requeueEvent key task k) = k_generation k"
  "k_nacosReconcile (requeueEvent key task k) = k_nacosReconcile k" "k_pushAppCodes (requeueEvent key task k) = k_pushAppCodes k"
  "k_emptyConfirmations (requeueEvent key task k) = k_emptyConfirmations k"
  by (simp_all add: requeueEvent_def reportDroppedEvent_def Let_def split: prod.splits)

lemma submit_frame [simp]:
  "k_cache (submit_or_requeue env key t t' k) = k_cache k" "k_generation (submit_or_requeue env key t t' k) = k_generation k"
  "k_nacosReconcile (submit_or_requeue env key t t' k) = k_nacosReconcile k"
  "k_pushAppCodes (submit_or_requeue env key t t' k) = k_pushAppCodes k"
  "k_emptyConfirmations (submit_or_requeue env key t t' k) = k_emptyConfirmations k"
  by (simp_all add: submit_or_requeue_def split: prod.splits)

lemma perform_frame [simp]:
  "k_cache (perform env acts k) = k_cache k" "k_generation (perform env acts k) = k_generation k"
  "k_nacosReconcile (perform env acts k) = k_nacosReconcile k"
  "k_emptyConfirmations (perform env acts k) = k_emptyConfirmations k"
  unfolding perform_def
  by (induction acts arbitrary: k) (simp_all add: k8s_buildAndSendEvent_def split: k8s_action.splits)

text \<open>A popped object either leaves the cache alone or counts in the generation.\<close>

definition fenced :: "('t, 'p) k8s \<Rightarrow> ('t, 'p) k8s \<Rightarrow> bool" where
  "fenced k k' \<longleftrightarrow> k_nacosReconcile k' = k_nacosReconcile k \<and> k_emptyConfirmations k' = k_emptyConfirmations k
     \<and> (k_cache k' = k_cache k \<and> k_generation k' = k_generation k \<or> k_generation k' = k_generation k + 1)"

lemma fenced_refl [simp]: "fenced k k"
  by (simp add: fenced_def)

lemma ProcessCache_fenced: "ProcessCache env e ins k = Some k' \<Longrightarrow> fenced k k'"
  by (auto simp: ProcessCache_def fenced_def split: if_splits option.splits)

lemma present_pod_fenced: "present_pod env obj pod k = Some (r, k') \<Longrightarrow> fenced k k'"
  by (auto simp: present_pod_def fenced_def dest!: ProcessCache_fenced split: if_splits option.splits)

lemma missing_pod_fenced: "missing_pod env obj k = Some (r, k') \<Longrightarrow> fenced k k'"
  by (auto simp: missing_pod_def fenced_def Let_def dest!: ProcessCache_fenced split: if_splits option.splits)

lemma pod2Instance_fenced: "pod2Instance env obj k = Some (r, k') \<Longrightarrow> fenced k k'"
  by (auto simp: pod2Instance_def Let_def dest: present_pod_fenced missing_pod_fenced
      split: prod.splits list.splits if_splits k8s_obj.splits option.splits)

lemma handle_popped_fenced: "handle_popped env obj k = Some k' \<Longrightarrow> fenced k k'"
  by (auto simp: handle_popped_def fenced_def Let_def dest!: pod2Instance_fenced split: option.splits prod.splits)

lemma pops_fenced:
  "\<exists>n \<le> length objs. k_generation (pops env objs k) = k_generation k + of_nat n
     \<and> (n = 0 \<longrightarrow> k_cache (pops env objs k) = k_cache k)
     \<and> k_nacosReconcile (pops env objs k) = k_nacosReconcile k
     \<and> k_emptyConfirmations (pops env objs k) = k_emptyConfirmations k"
proof (induction objs arbitrary: k)
  case (Cons obj objs)
  show ?case
  proof (cases "handle_popped env obj k")
    case (Some k1)
    obtain n where n: "n \<le> length objs" "k_generation (pops env objs k1) = k_generation k1 + of_nat n"
      "n = 0 \<longrightarrow> k_cache (pops env objs k1) = k_cache k1" "k_nacosReconcile (pops env objs k1) = k_nacosReconcile k1"
      "k_emptyConfirmations (pops env objs k1) = k_emptyConfirmations k1"
      using Cons.IH by blast
    from handle_popped_fenced [OF Some] consider
      (same) "k_cache k1 = k_cache k" "k_generation k1 = k_generation k" | (up) "k_generation k1 = k_generation k + 1"
      unfolding fenced_def by blast
    then show ?thesis
    proof cases
      case same
      then show ?thesis using n Some handle_popped_fenced [OF Some] by (intro exI [of _ n]) (simp add: fenced_def)
    next
      case up
      then show ?thesis using n Some handle_popped_fenced [OF Some]
        by (intro exI [of _ "Suc n"]) (simp add: fenced_def algebra_simps)
    qed
  qed (auto intro: exI [of _ 0])
qed simp

text \<open>Fewer than \<open>2 ^ 64\<close> events and an unchanged generation: an unchanged cache.\<close>

lemma pops_same_generation:
  assumes "length objs < 2 ^ 64" and "k_generation (pops env objs k) = k_generation k"
  shows "k_cache (pops env objs k) = k_cache k"
proof -
  obtain n where n: "n \<le> length objs" "k_generation (pops env objs k) = k_generation k + of_nat n"
    "n = 0 \<longrightarrow> k_cache (pops env objs k) = k_cache k"
    using pops_fenced [of objs env k] by blast
  have z: "(of_nat n :: 64 word) = 0" using n(2) assms(2) by simp
  have "n < 2 ^ 64" using n(1) assms(1) by simp
  with z have "n = 0" using unat_of_nat [of n, where 'a = 64] by simp
  with n(3) show ?thesis by simp
qed

text \<open>What a comparison may send: local instances, and in the legacy mode terminated
  copies of remote ones.\<close>

lemma compare_loop_sends:
  "compare_loop nr items ks servMap = Some (acts, b, e, left) \<Longrightarrow>
    (\<forall>i. SendEvent i \<in> set acts \<longrightarrow> i \<in> snd ` set ks) \<and> set left \<subseteq> set servMap"
proof (induction nr items ks servMap arbitrary: acts b e left rule: compare_loop.induct)
  case (2 nr items key k8sIns rest servMap)
  show ?case
  proof (cases "LookupIdentity servMap items k8sIns")
    case None
    then show ?thesis using "2.IH"(1) "2.prems" by (fastforce split: option.splits if_splits)
  next
    case (Some servIns)
    have "set (adel (IdentityKey servIns) servMap) \<subseteq> set servMap" by (auto simp: adel_def)
    then show ?thesis using "2.IH"(2) [OF Some] "2.prems" Some by (fastforce split: option.splits if_splits)
  qed
qed simp

lemma StrictListToMap_from_values:
  "StrictListToMap_from m amb xs = (m', amb') \<Longrightarrow> snd ` set m' \<subseteq> snd ` set m \<union> set (drop_none xs)"
proof (induction m amb xs arbitrary: m' amb' rule: StrictListToMap_from.induct)
  case (3 m amb v xs)
  have d: "snd ` set (adel (IdentityKey v) m) \<subseteq> snd ` set m" by (auto simp: adel_def)
  have u: "snd ` set (aupd k v m) \<subseteq> insert v (snd ` set m)" for k
    by (induction k v m rule: aupd.induct) auto
  consider (dup) "map_of m (IdentityKey v) \<noteq> None" | (new) "map_of m (IdentityKey v) = None" "IdentityKey v \<notin> set amb"
    | (amb) "map_of m (IdentityKey v) = None" "IdentityKey v \<in> set amb" by blast
  then show ?case
  proof cases
    case dup
    with 3 have "snd ` set m' \<subseteq> snd ` set (adel (IdentityKey v) m) \<union> set (drop_none xs)" by (simp add: Let_def)
    also have "\<dots> \<subseteq> snd ` set m \<union> set (drop_none xs)" using d by blast
    finally show ?thesis by (rule order_trans) (simp, blast)
  next
    case new
    with 3 have "snd ` set m' \<subseteq> snd ` set (aupd (IdentityKey v) v m) \<union> set (drop_none xs)" by (simp add: Let_def)
    also have "\<dots> \<subseteq> insert v (snd ` set m) \<union> set (drop_none xs)" using u by blast
    finally show ?thesis by (rule order_trans) auto
  next
    case amb
    with 3 have "snd ` set m' \<subseteq> snd ` set m \<union> set (drop_none xs)" by (simp add: Let_def)
    then show ?thesis by (rule order_trans) (simp, blast)
  qed
qed simp_all

lemma compare_lists_sends:
  assumes "compare_lists range_order nr all items = Some acts" and "SendEvent i \<in> set acts"
    and "\<And>m. set (range_order m) = set m"
  shows "i \<in> set all \<or> \<not> nr \<and> (\<exists>v \<in> set (drop_none items). i = terminated v)"
proof -
  obtain servMap sa where s: "StrictListToMap items = (servMap, sa)" by fastforce
  obtain k8sMap ka where k: "StrictListToMap (map Some all) = (k8sMap, ka)" by fastforce
  from assms(1,2) s k obtain acts' b e left where
    l: "compare_loop nr items (range_order k8sMap) servMap = Some (acts', b, e, left)"
    and i: "SendEvent i \<in> set acts' \<or> \<not> nr \<and> (\<exists>(key, v) \<in> set (range_order left). i = terminated v)"
    unfolding compare_lists_def by (fastforce split: if_splits option.splits)
  have "snd ` set k8sMap \<subseteq> set all" "snd ` set servMap \<subseteq> set (drop_none items)"
    using StrictListToMap_from_values [of "[]" "[]" "map Some all"] StrictListToMap_from_values [of "[]" "[]" items] s k
    unfolding StrictListToMap_def by fastforce+
  with i compare_loop_sends [OF l] assms(3) show ?thesis by fastforce
qed

lemma filter_app_codes_subset: "filter_app_codes codes items = Some items' \<Longrightarrow> set items' \<subseteq> set items"
  by (auto simp: filter_app_codes_def split: option.splits if_splits)

lemma compare_remote_sends:
  assumes "compare_remote range_order nr codes all (l, err) moved = Some acts" and "SendEvent i \<in> set acts"
    and "\<And>m. set (range_order m) = set m"
  shows "\<not> moved \<and> (i \<in> set all \<or> \<not> nr \<and> (\<exists>items v. l = Some items \<and> Some v \<in> set items \<and> i = terminated v))"
proof -
  let ?items = "case l of None \<Rightarrow> [] | Some l \<Rightarrow> l"
  have m: "\<not> moved" using assms(1,2) by (auto simp: compare_remote_def split: if_splits)
  show ?thesis
  proof (cases "?items = []")
    case True
    then show ?thesis using assms(1,2) m by (auto simp: compare_remote_def Let_def split: if_splits)
  next
    case False
    with assms(1,2) m obtain items where f: "filter_app_codes codes ?items = Some items"
      and c: "compare_lists range_order nr all items = Some acts"
      by (auto simp: compare_remote_def Let_def split: if_splits option.splits)
    from compare_lists_sends [OF c assms(2,3)] filter_app_codes_subset [OF f] m show ?thesis
      by (cases l) (auto simp: set_drop_none)
  qed
qed

lemma active_cong: "k_cache k = k_cache k' \<Longrightarrow> active env k = active env k'"
  by (simp add: active_def)

text \<open>A comparison that acts has bootstrapped, has a snapshot and has read the registry.\<close>

lemma CompareAndFlush_acts:
  assumes "k8s_CompareAndFlush env range_order others others' remote k = Some (acts, k')" and "acts \<noteq> []"
  obtains k1 k2 where "bootstrapCacheFromSource env others k = Some (True, k1)"
    "k_cache k2 = k_cache k1" "k_generation k2 = k_generation k1" "k_nacosReconcile k2 = k_nacosReconcile k1"
    "compare_remote range_order (k_nacosReconcile (others' k2)) (k_pushAppCodes (others' k2))
       (active env k1) remote (k_generation (others' k2) \<noteq> k_generation k1) = Some acts"
    "k' = perform env acts (others' k2)"
proof -
  obtain k1 where b: "bootstrapCacheFromSource env others k = Some (True, k1)"
  proof (cases "bootstrapCacheFromSource env others k")
    case (Some x)
    with assms have "fst x" by (cases x) (auto simp: k8s_CompareAndFlush_def split: bool.splits)
    then show ?thesis using that Some by (cases x) simp
  qed (use assms(1) in \<open>simp add: k8s_CompareAndFlush_def\<close>)
  define k2 where "k2 = k1\<lparr>k_emptyConfirmations := confirmations env False k1\<rparr>"
  define r where "r = compare_remote range_order (k_nacosReconcile (others' k2)) (k_pushAppCodes (others' k2))
       (active env k1) remote (k_generation (others' k2) \<noteq> k_generation k1)"
  have e: "k8s_CompareAndFlush env range_order others others' remote k =
      (if active env k1 = [] then Some ([], k2) else case r of None \<Rightarrow> None | Some acts \<Rightarrow> Some (acts, perform env acts (others' k2)))"
    unfolding k8s_CompareAndFlush_def b r_def k2_def by (simp add: k8s_snapshotForFullPushMode_def Let_def)
  then have "r = Some acts" "k' = perform env acts (others' k2)" using assms by (auto split: if_splits option.splits)
  then show ?thesis using that [OF b, of k2] unfolding r_def by (simp add: k2_def)
qed

text \<open>C4: Whatever pod events are handled while the registry is read, a comparison
  sends only what is in the cache when it sends (for fewer than \<open>2 ^ 64\<close> events, the
  range of the generation): an active cached instance or, in the legacy mode only, a
  terminated copy of an instance the registry returned.  In nacos mode it never
  sends a deletion.\<close>

theorem CompareAndFlush_sends_current:
  assumes "k8s_CompareAndFlush env range_order others (pops env objs) (l, err) k = Some (acts, k')"
    and "length objs < 2 ^ 64" and "\<And>m. set (range_order m) = set m" and "SendEvent i \<in> set acts"
  shows "i \<in> set (active env k')
    \<or> \<not> k_nacosReconcile k' \<and> (\<exists>items v. l = Some items \<and> Some v \<in> set items \<and> i = terminated v)"
proof -
  have "acts \<noteq> []" using assms(4) by auto
  from CompareAndFlush_acts [OF assms(1) this] obtain k1 k2 where
    k2: "k_cache k2 = k_cache k1" "k_generation k2 = k_generation k1"
    and c: "compare_remote range_order (k_nacosReconcile (pops env objs k2)) (k_pushAppCodes (pops env objs k2))
       (active env k1) (l, err) (k_generation (pops env objs k2) \<noteq> k_generation k1) = Some acts"
    and k': "k' = perform env acts (pops env objs k2)" by blast
  note r = compare_remote_sends [OF c assms(4,3)]
  then have "k_cache (pops env objs k2) = k_cache k2" using k2 by (intro pops_same_generation [OF assms(2)]) simp
  then have "active env k' = active env k1" using k' k2 by (simp add: active_def)
  with r k' show ?thesis by simp
qed

section \<open>Exactness of the comparison\<close>

text \<open>When an instance of the provider is sent: it drifted from its remote partner, or it
  has none and is online.\<close>

definition to_send :: "bool \<Rightarrow> inst \<Rightarrow> inst option \<Rightarrow> bool" where
  "to_send nr i partner = (case partner of
      None \<Rightarrow> Status i = 1
    | Some v \<Rightarrow> if nr then DiffNacosReconcile (Some i) (Some v) = Some True else hasInstanceDiff v i)"

definition remote_of :: "insts \<Rightarrow> string \<Rightarrow> inst option" where
  "remote_of items k = map_of (map (\<lambda>v. (IdentityKey v, v)) (drop_none items)) k"

text \<open>Wire ids agree with identities between the two sides.\<close>

definition wire_agrees :: "inst list \<Rightarrow> insts \<Rightarrow> bool" where
  "wire_agrees all items \<longleftrightarrow>
     (\<forall>a \<in> set all. \<forall>v \<in> set (drop_none items). InstanceId a = InstanceId v \<longleftrightarrow> IdentityKey a = IdentityKey v)"

lemma remote_of_SomeD: "remote_of items k = Some v \<Longrightarrow> v \<in> set (drop_none items) \<and> IdentityKey v = k"
  by (auto simp: remote_of_def dest!: map_of_SomeD)

lemma remote_of_None: "remote_of items k = None \<longleftrightarrow> (\<forall>v \<in> set (drop_none items). IdentityKey v \<noteq> k)"
  by (auto simp: remote_of_def map_of_eq_None_iff image_iff)

lemma LookupIdentity_exact:
  assumes "map_of servMap (IdentityKey a) = remote_of items (IdentityKey a)" and "wire_agrees all items" and "a \<in> set all"
  shows "LookupIdentity servMap items a = remote_of items (IdentityKey a)"
proof (cases "remote_of items (IdentityKey a)")
  case None
  then have "filter (\<lambda>v. InstanceId v = InstanceId a) (drop_none items) = []"
    using assms(2,3) unfolding wire_agrees_def remote_of_None filter_empty_conv by metis
  then have "wire_match (InstanceId a) None items = Some None" by (simp add: wire_match_spec)
  then show ?thesis using None assms(1) by (simp add: LookupIdentity_def)
qed (use assms(1) in \<open>simp add: LookupIdentity_def\<close>)

lemma compare_loop_exact:
  assumes "compare_loop nr items ks servMap = Some (acts, b, e, left)" and "wire_agrees all items"
    and "\<And>k a. (k, a) \<in> set ks \<Longrightarrow> a \<in> set all \<and> k = IdentityKey a \<and> map_of servMap k = remote_of items k"
    and "distinct (map fst ks)"
  shows "(\<forall>i. SendEvent i \<in> set acts \<longleftrightarrow> i \<in> snd ` set ks \<and> to_send nr i (remote_of items (IdentityKey i)))
    \<and> map_of left = (\<lambda>k. if k \<in> fst ` set ks then None else map_of servMap k)"
  using assms(1,3,4)
proof (induction ks arbitrary: servMap acts b e left)
  case (Cons x rest)
  obtain key a where x: "x = (key, a)" by fastforce
  have k: "a \<in> set all" "key = IdentityKey a" "map_of servMap key = remote_of items key"
    using Cons.prems(2) x by auto
  have n: "key \<notin> fst ` set rest" "distinct (map fst rest)" using Cons.prems(3) x by auto
  have l: "LookupIdentity servMap items a = remote_of items (IdentityKey a)"
    using k assms(2) by (intro LookupIdentity_exact) simp_all
  show ?case
  proof (cases "remote_of items (IdentityKey a)")
    case None
    with l x Cons.prems(1) obtain acts' b' e' where
      r: "compare_loop nr items rest servMap = Some (acts', b', e', left)"
      and acts: "acts = (if Status a = 1 then [SendEvent a] else []) @ acts'" by (auto split: option.splits)
    have a: "SendEvent i \<in> set acts \<longleftrightarrow> to_send nr a None \<and> i = a \<or> SendEvent i \<in> set acts'" for i
      by (auto simp: acts to_send_def)
    have m: "map_of servMap key = None" using None k by simp
    have "(\<forall>i. SendEvent i \<in> set acts' \<longleftrightarrow> i \<in> snd ` set rest \<and> to_send nr i (remote_of items (IdentityKey i)))
      \<and> map_of left = (\<lambda>k. if k \<in> fst ` set rest then None else map_of servMap k)"
      using Cons.prems(2) n by (intro Cons.IH [OF r]) auto
    then show ?thesis using a None k(2) m unfolding x by (auto simp: fun_eq_iff)
  next
    case (Some v)
    have v: "IdentityKey v = key" using remote_of_SomeD [OF Some] k by simp
    from l Some x Cons.prems(1) v obtain acts' b' e' where
      r: "compare_loop nr items rest (adel key servMap) = Some (acts', b', e', left)"
      and a: "SendEvent i \<in> set acts \<longleftrightarrow> to_send nr a (Some v) \<and> i = a \<or> SendEvent i \<in> set acts'" for i
      by (auto simp: to_send_def split: option.splits if_splits)
    have "(\<forall>i. SendEvent i \<in> set acts' \<longleftrightarrow> i \<in> snd ` set rest \<and> to_send nr i (remote_of items (IdentityKey i)))
      \<and> map_of left = (\<lambda>k. if k \<in> fst ` set rest then None else map_of (adel key servMap) k)"
    proof (rule Cons.IH [OF r _ n(2)])
      fix j c assume jc: "(j, c) \<in> set rest"
      then have "j \<noteq> key" using n(1) by force
      then show "c \<in> set all \<and> j = IdentityKey c \<and> map_of (adel key servMap) j = remote_of items j"
        using Cons.prems(2) [of j c] jc x by auto
    qed
    then show ?thesis using a Some k(2) unfolding x by (auto simp: fun_eq_iff)
  qed
qed simp

text \<open>The index of an unambiguous list.\<close>

lemma StrictListToMap_unambiguous:
  assumes "StrictListToMap items = (m, [])"
  shows "map_of m = remote_of items" and "distinct (map fst m)"
proof -
  have s: "strict_index items m []" using StrictListToMap_from_spec [of "[]" "[]" "[]" items m "[]"] assms
    by (simp add: StrictListToMap_def strict_index_def)
  have "length (under_key k items) < 2" for k using s unfolding strict_index_def by (metis empty_iff list.set(1) not_le)
  then have u: "under_key k items = [] \<or> (\<exists>v. under_key k items = [v])" for k
    by (metis One_nat_def Suc_1 length_0_conv length_Suc_conv less_2_cases)
  show "map_of m = remote_of items"
  proof
    fix k
    from u [of k] show "map_of m k = remote_of items k"
    proof
      assume "under_key k items = []"
      then show ?thesis using strict_index_key(1) [OF s, of k]
        using remote_of_None [of items k] by (simp add: under_key_def filter_empty_conv)
    next
      assume "\<exists>v. under_key k items = [v]"
      then obtain v where v: "under_key k items = [v]" ..
      have "remote_of items k \<noteq> None" using v unfolding remote_of_None under_key_def
        by (metis (mono_tags, lifting) filter_empty_conv list.distinct(1))
      then obtain w where w: "remote_of items k = Some w" by blast
      then have "w \<in> set (under_key k items)" using remote_of_SomeD [OF w] by (simp add: under_key_def)
      with v w strict_index_key(1) [OF s, of k] show ?thesis by simp
    qed
  qed
  have "distinct (map fst m')" if "StrictListToMap_from n amb xs = (m', amb')" "distinct (map fst n)" for n amb xs m' amb'
    using that by (induction n amb xs rule: StrictListToMap_from.induct) (auto simp: Let_def split: if_splits)
  from this [of "[]" "[]" items m "[]"] assms show "distinct (map fst m)" by (simp add: StrictListToMap_def)
qed

lemma length_filter_key: "distinct (map f xs) \<Longrightarrow> length (filter (\<lambda>v. f v = k) xs) \<le> 1"
  by (induction xs) (auto simp: filter_empty_conv intro: rev_image_eqI)

lemma StrictListToMap_distinct:
  assumes "distinct (map IdentityKey (drop_none items))"
  shows "\<exists>m. StrictListToMap items = (m, [])"
proof -
  obtain m amb where s: "StrictListToMap items = (m, amb)" by fastforce
  then have "strict_index items m amb" using StrictListToMap_from_spec [of "[]" "[]" "[]" items m amb]
    by (simp add: StrictListToMap_def strict_index_def)
  moreover have "length (under_key k items) \<le> 1" for k
    using assms unfolding under_key_def by (rule length_filter_key)
  ultimately have "k \<notin> set amb" for k unfolding strict_index_def by (metis One_nat_def Suc_1 not_less_eq_eq)
  then have "amb = []" by (metis list.set_intros(1) neq_Nil_conv)
  with s show ?thesis by blast
qed

lemma remote_of_distinct:
  "distinct (map IdentityKey (drop_none items)) \<Longrightarrow>
   remote_of items k = Some v \<longleftrightarrow> v \<in> set (drop_none items) \<and> IdentityKey v = k"
  unfolding remote_of_def by (subst map_of_eq_Some_iff) (auto simp: comp_def)

lemma index_entries:
  assumes "StrictListToMap items = (m, [])" and "distinct (map IdentityKey (drop_none items))"
  shows "(k, v) \<in> set m \<longleftrightarrow> v \<in> set (drop_none items) \<and> k = IdentityKey v"
  using StrictListToMap_unambiguous [OF assms(1)] remote_of_distinct [OF assms(2), of k v]
  by (metis map_of_eq_Some_iff)

lemma compare_loop_left_distinct:
  "compare_loop nr items ks servMap = Some (acts, b, e, left) \<Longrightarrow> distinct (map fst servMap) \<Longrightarrow> distinct (map fst left)"
proof (induction ks arbitrary: servMap acts b e left)
  case (Cons x rest)
  obtain key a where x: "x = (key, a)" by fastforce
  show ?case
  proof (cases "LookupIdentity servMap items a")
    case None
    with Cons x show ?thesis by (auto split: option.splits)
  next
    case (Some v)
    with Cons.prems(1) x obtain acts' b' e' where "compare_loop nr items rest (adel (IdentityKey v) servMap) = Some (acts', b', e', left)"
      by (auto split: option.splits if_splits)
    with Cons.IH Cons.prems(2) show ?thesis by (metis awf_adel)
  qed
qed simp
text \<open>C12: The comparison is exact, in whatever order Go ranges over its maps.  When the
  identities of each side are distinct and wire ids agree with them, what is sent is
  each instance of the provider that differs from its remote partner or is online
  without one and, in the legacy mode only, a terminated copy of each instance only
  the registry has.\<close>

theorem compare_lists_exact:
  assumes "compare_lists range_order nr all items = Some acts" and "\<And>m. mset (range_order m) = mset m"
    and "distinct (map IdentityKey all)" and "distinct (map IdentityKey (drop_none items))" and "wire_agrees all items"
  shows "SendEvent i \<in> set acts \<longleftrightarrow> i \<in> set all \<and> to_send nr i (remote_of items (IdentityKey i))
    \<or> \<not> nr \<and> (\<exists>v \<in> set (drop_none items). IdentityKey v \<notin> IdentityKey ` set all \<and> i = terminated v)"
proof -
  have ro: "set (range_order m) = set m" for m using assms(2) by (metis set_mset_mset)
  obtain servMap where s: "StrictListToMap items = (servMap, [])" using StrictListToMap_distinct [OF assms(4)] by blast
  obtain k8sMap where k: "StrictListToMap (map Some all) = (k8sMap, [])"
    using StrictListToMap_distinct [of "map Some all"] assms(3) by auto
  note S = StrictListToMap_unambiguous [OF s] note K = StrictListToMap_unambiguous [OF k]
  obtain acts' b e left where l: "compare_loop nr items (range_order k8sMap) servMap = Some (acts', b, e, left)"
    using assms(1) s k unfolding compare_lists_def by (auto split: option.splits)
  then have acts: "SendEvent i \<in> set acts \<longleftrightarrow> SendEvent i \<in> set acts' \<or> \<not> nr \<and> (\<exists>(k, v) \<in> set left. i = terminated v)"
    using assms(1) s k ro unfolding compare_lists_def by (auto split: if_splits)
  have ents: "(key, a) \<in> set k8sMap \<longleftrightarrow> a \<in> set all \<and> key = IdentityKey a" for key a
    using index_entries [OF k, of key a] assms(3) by simp
  have "distinct (map fst (range_order k8sMap))"
    using K(2) assms(2) by (metis mset_eq_imp_distinct_iff mset_map)
  then have r: "(\<forall>i. SendEvent i \<in> set acts' \<longleftrightarrow> i \<in> snd ` set (range_order k8sMap) \<and> to_send nr i (remote_of items (IdentityKey i)))
      \<and> map_of left = (\<lambda>k. if k \<in> fst ` set (range_order k8sMap) then None else map_of servMap k)"
    using S(1) ents ro by (intro compare_loop_exact [OF l assms(5)]) auto
  have "set k8sMap = (\<lambda>a. (IdentityKey a, a)) ` set all" using ents by auto
  then have f: "fst ` set k8sMap = IdentityKey ` set all" "snd ` set k8sMap = set all" by (simp_all add: image_comp comp_def)
  have "(k, v) \<in> set left \<longleftrightarrow> v \<in> set (drop_none items) \<and> IdentityKey v = k \<and> k \<notin> IdentityKey ` set all" for k v
  proof -
    have "(k, v) \<in> set left \<longleftrightarrow> map_of left k = Some v"
      using compare_loop_left_distinct [OF l S(2)] by simp
    then show ?thesis using r ro f remote_of_distinct [OF assms(4), of k v] by (simp add: S(1))
  qed
  then have "(\<exists>(k, v) \<in> set left. i = terminated v) \<longleftrightarrow>
      (\<exists>v \<in> set (drop_none items). IdentityKey v \<notin> IdentityKey ` set all \<and> i = terminated v)" by auto
  with acts r ro f show ?thesis by simp
qed

text \<open>A provider over ordered lists whose pool has a number of free workers.\<close>

definition sample_k8s_env :: "(inst list, nat) k8s_env" where
  "sample_k8s_env = \<lparr>ke_btree = list_btree, ke_NewCache = [],
     ke_Submit = (\<lambda>_ n. if n = 0 then (Some (ErrNew ''too many goroutines''), 0) else (None, n - 1)),
     ke_Release = (\<lambda>_. 0), ke_cwd = None, ke_marshal = (\<lambda>_. None), ke_addr = (\<lambda>_. 1)\<rparr>"

definition sample_k8s :: "inst list \<Rightarrow> (inst list, nat) k8s" where
  "sample_k8s cache = \<lparr>k_robot = \<lparr>rb_clusters = [], rb_queue = newCoalescingQueue 4, rb_stopped = False\<rparr>,
     k_stopped = False, k_done = False, k_interval = 30, k_filters = InitInstanceFilters, k_cache = Some cache,
     k_generation = 1, k_emptyConfirmations = 0, k_pool = 2, k_overflow = None, k_recorder = False, k_dropped = 0,
     k_pushAppCodes = None, k_nacosReconcile = False\<rparr>"

definition sample_online :: inst where
  "sample_online = zero_inst\<lparr>InstanceId := ''web-0'', Provider := ''k8s'', SourceKey := ''c/u1'', Status := 1, Reversion := 7\<rparr>"

lemmas sample_k8s_defs = sample_k8s_env_def sample_k8s_def sample_online_def sample_new_def zero_inst_def list_btree_def

text \<open>The online instance is missing in the registry, which has another one.\<close>

lemma sample_compare:
  "compare_lists (\<lambda>m. m) False [sample_online] [Some sample_new]
     = Some [SendEvent sample_online, inconsistency, SendEvent (terminated sample_new), inconsistency]"
  by (simp add: compare_lists_def StrictListToMap_def IdentityKey_def LookupIdentity_def sample_k8s_defs Let_def)

theorem compare_lists_exact_witness:
  "to_send False sample_online (remote_of [Some sample_new] (IdentityKey sample_online))
   \<and> SendEvent (terminated sample_new) \<in> set [SendEvent sample_online, inconsistency, SendEvent (terminated sample_new), inconsistency]"
  using compare_lists_exact [OF sample_compare, of sample_online] compare_lists_exact [OF sample_compare, of "terminated sample_new"]
  by (simp add: wire_agrees_def IdentityKey_def to_send_def remote_of_def sample_k8s_defs terminated_def)

lemma sample_flush:
  "\<exists>acts k'. k8s_CompareAndFlush sample_k8s_env (\<lambda>m. m) (\<lambda>k. k) (pops sample_k8s_env [sample_queue_object ''c''])
      (Some [Some sample_new], None) (sample_k8s [sample_online]) = Some (acts, k') \<and> SendEvent sample_online \<in> set acts
      \<and> active sample_k8s_env k' = [sample_online]"
proof -
  have a: "active sample_k8s_env (sample_k8s [sample_online]) = [sample_online]"
    by (simp add: active_def sample_k8s_env_def sample_k8s_def list_btree_def cache_List_def sample_online_def zero_inst_def InstanceStatusOffline_def)
  have p: "pops sample_k8s_env [sample_queue_object ''c''] (sample_k8s [sample_online]) = sample_k8s [sample_online]"
    by (simp add: handle_popped_def pod2Instance_def GetByClusterKey_def missing_pod_def
      sample_queue_object_def sample_k8s_def EventAdd_def EventDelete_def)
  have e: "(sample_k8s c)\<lparr>k_emptyConfirmations := 0\<rparr> = sample_k8s c" "k_generation (sample_k8s c) = 1"
    "k_nacosReconcile (sample_k8s c) = False" "k_pushAppCodes (sample_k8s c) = None" for c
    by (simp_all add: sample_k8s_def)
  have "k8s_CompareAndFlush sample_k8s_env (\<lambda>m. m) (\<lambda>k. k) (pops sample_k8s_env [sample_queue_object ''c''])
      (Some [Some sample_new], None) (sample_k8s [sample_online])
    = Some (the (compare_lists (\<lambda>m. m) False [sample_online] [Some sample_new]),
        perform sample_k8s_env (the (compare_lists (\<lambda>m. m) False [sample_online] [Some sample_new])) (sample_k8s [sample_online]))"
    unfolding k8s_CompareAndFlush_def
    by (simp add: bootstrapCacheFromSource_def k8s_snapshotForFullPushMode_def confirmations_def
      a e p compare_remote_def filter_app_codes_def sample_compare del: pops.simps)
  then show ?thesis using a by (simp add: sample_compare active_def)
qed

theorem CompareAndFlush_sends_current_witness:
  "\<exists>acts k'. k8s_CompareAndFlush sample_k8s_env (\<lambda>m. m) (\<lambda>k. k) (pops sample_k8s_env [sample_queue_object ''c''])
      (Some [Some sample_new], None) (sample_k8s [sample_online]) = Some (acts, k') \<and> SendEvent sample_online \<in> set acts
    \<and> sample_online \<in> set (active sample_k8s_env k')"
proof -
  obtain acts k' where c: "k8s_CompareAndFlush sample_k8s_env (\<lambda>m. m) (\<lambda>k. k) (pops sample_k8s_env [sample_queue_object ''c''])
      (Some [Some sample_new], None) (sample_k8s [sample_online]) = Some (acts, k')" and s: "SendEvent sample_online \<in> set acts"
    using sample_flush by blast
  have "sample_online \<noteq> terminated v" for v by (auto simp: sample_online_def terminated_def dest: arg_cong [where f = Status])
  with CompareAndFlush_sends_current [OF c _ _ s] c s show ?thesis by auto
qed

section \<open>The provider as a state machine\<close>

text \<open>The goroutines of a running provider: the informers change the stores, the watch
  loop handles an object, and the ticker compares and pushes.  The list is the full
  events handed to the worker so far.\<close>

inductive k8s_step :: "('t, 'p) k8s_env \<Rightarrow> ('t, 'p) k8s \<times> Event list \<Rightarrow> ('t, 'p) k8s \<times> Event list \<Rightarrow> bool" for env where
  informed: "k8s_step env (k, es) (k\<lparr>k_robot := r\<rparr>, es)"
| popped: "handle_popped env obj k = Some k' \<Longrightarrow> k8s_step env (k, es) (k', es)"
| compared: "k8s_CompareAndFlush env range_order (pops env objs) (pops env objs') remote k = Some (acts, k') \<Longrightarrow>
    k8s_step env (k, es) (k', es)"
| pushed: "k8s_emitSyncAll env clock hist k = (e, k') \<Longrightarrow> k8s_step env (k, es) (k', es @ [e])"

inductive_cases k8s_stepE: "k8s_step env s s'"

text \<open>The counter of empty snapshots is at most the number of the last events in a row
  that are empty, so a confirmed event is at least the third of them.\<close>

definition trailing_empty :: "Event list \<Rightarrow> nat" where
  "trailing_empty es = length (takeWhile (\<lambda>e. ev_Data e = []) (List.rev es))"

definition confirmed_inv :: "('t, 'p) k8s \<times> Event list \<Rightarrow> bool" where
  "confirmed_inv s \<longleftrightarrow> unat (k_emptyConfirmations (fst s)) \<le> trailing_empty (snd s)
     \<and> (\<forall>n < length (snd s). ev_EmptyConfirmed (snd s ! n) \<longrightarrow> 3 \<le> trailing_empty (take (Suc n) (snd s)))"

lemma trailing_empty_snoc: "trailing_empty (es @ [e]) = (if ev_Data e = [] then Suc (trailing_empty es) else 0)"
  by (simp add: trailing_empty_def)

lemma bootstrap_counter:
  assumes "bootstrapCacheFromSource env (pops env objs) k = Some (ok, k')"
  shows "k_emptyConfirmations k' = k_emptyConfirmations k"
  using assms pops_fenced [of objs env k]
  by (auto simp: bootstrapCacheFromSource_def replaceCacheIfGeneration_def Let_def split: if_splits option.splits)

lemma compare_counter:
  assumes "k8s_CompareAndFlush env range_order (pops env objs) (pops env objs') remote k = Some (acts, k')"
  shows "unat (k_emptyConfirmations k') \<le> unat (k_emptyConfirmations k)"
proof -
  from assms obtain ok k1 where b: "bootstrapCacheFromSource env (pops env objs) k = Some (ok, k1)"
    unfolding k8s_CompareAndFlush_def by (cases "bootstrapCacheFromSource env (pops env objs) k") auto
  note c = bootstrap_counter [OF b]
  let ?k2 = "k1\<lparr>k_emptyConfirmations := confirmations env False k1\<rparr>"
  have "k_emptyConfirmations (pops env objs' ?k2) = k_emptyConfirmations ?k2" using pops_fenced by blast
  then have "k_emptyConfirmations k' \<in> {k_emptyConfirmations k1, confirmations env False k1}"
    using assms b unfolding k8s_CompareAndFlush_def
    by (cases ok) (auto simp: k8s_snapshotForFullPushMode_def Let_def split: if_splits option.splits)
  with c show ?thesis by (auto simp: confirmations_def)
qed

lemma emitSyncAll_counter:
  assumes "k8s_emitSyncAll env clock hist k = (e, k')"
  shows "unat (k_emptyConfirmations k') \<le> (if ev_Data e = [] then Suc (unat (k_emptyConfirmations k)) else 0)
    \<and> ev_EmptyConfirmed e = (3 \<le> k_emptyConfirmations k')"
proof -
  have "unat (k_emptyConfirmations k + 1) \<le> Suc (unat (k_emptyConfirmations k))"
    by (simp add: unat_word_ariths)
  with assms show ?thesis
    by (auto simp: k8s_emitSyncAll_def k8s_snapshotForFullPushMode_def confirmations_def Let_def zero_Event_def)
qed

lemma confirmed_inv_step: "k8s_step env s s' \<Longrightarrow> confirmed_inv s \<Longrightarrow> confirmed_inv s'"
proof (induction rule: k8s_step.induct)
  case (popped obj k k' es)
  then show ?case using handle_popped_fenced [OF popped(1)] by (simp add: confirmed_inv_def fenced_def)
next
  case (compared range_order objs objs' remote k acts k' es)
  then show ?case using compare_counter [OF compared(1)] by (simp add: confirmed_inv_def)
next
  case (pushed clock hist k e k' es)
  have c: "unat (k_emptyConfirmations k') \<le> trailing_empty (es @ [e])"
    using emitSyncAll_counter [OF pushed(1)] pushed(2) by (auto simp: confirmed_inv_def trailing_empty_snoc split: if_splits)
  moreover have "3 \<le> trailing_empty (es @ [e])" if "ev_EmptyConfirmed e"
    using emitSyncAll_counter [OF pushed(1)] that c by (simp add: word_le_nat_alt)
  ultimately show ?case using pushed(2) by (auto simp: confirmed_inv_def nth_append less_Suc_eq)
qed (simp add: confirmed_inv_def)

lemma confirmed_inv_reachable:
  "(k8s_step env)\<^sup>*\<^sup>* (k, []) s \<Longrightarrow> k_emptyConfirmations k = 0 \<Longrightarrow> confirmed_inv s"
  by (induction rule: rtranclp_induct) (auto simp: confirmed_inv_def [of "(k, [])"] intro: confirmed_inv_step)

text \<open>The last events of a list that are empty in a row.\<close>

lemma trailing_empty_last:
  assumes "3 \<le> trailing_empty es"
  shows "\<exists>pre a b c. es = pre @ [a, b, c] \<and> ev_Data a = [] \<and> ev_Data b = [] \<and> ev_Data c = []"
proof (cases es rule: rev_exhaust)
  case (snoc ys c)
  then show ?thesis using assms
  proof (cases ys rule: rev_exhaust)
    case (snoc zs b)
    then show ?thesis using assms \<open>es = ys @ [c]\<close>
      by (cases zs rule: rev_exhaust) (auto simp: trailing_empty_def split: if_splits)
  qed (auto simp: trailing_empty_def split: if_splits)
qed (use assms in \<open>simp add: trailing_empty_def\<close>)

section \<open>The life of a pod\<close>

lemma pod2Instance_added:
  assumes "pod2Instance env obj k = Some (Some ins, k')" and "qo_Event obj \<noteq> EventDelete" and "qo_UID obj \<noteq> []"
  shows "\<exists>pod. p_UID pod = qo_UID obj \<and> present_pod env obj pod k = Some (Some ins, k')"
  using assms by (auto simp: pod2Instance_def missing_pod_def Let_def
      split: prod.splits list.splits if_splits k8s_obj.splits option.splits)

text \<open>What a pod that is sent has gone through: its identity is the key under which its
  deletion will look it up.\<close>

lemma recover_offline_key: "recover_offline env k ins = Some ins' \<Longrightarrow> Status ins' \<noteq> InstanceStatusOffline \<Longrightarrow> ins' = ins"
  by (auto simp: recover_offline_def split: if_splits option.splits)

lemma present_pod_sent:
  assumes "present_pod env obj pod k = Some (Some ins, k')" and "Status ins \<noteq> InstanceStatusOffline"
    and "qo_UID obj \<noteq> []" "p_UID pod = qo_UID obj"
  shows "IdentityKey ins = qo_ClusterID obj @ ''/'' @ qo_UID obj" and "ProcessCache env (qo_Event obj) ins k = Some k'"
proof -
  obtain i where f: "formatInstanceWithDeps (Some obj) (Some pod) (k_pushAppCodes k) = Some i"
    using assms(1) by (auto simp: present_pod_def split: option.splits)
  then obtain j where j: "recover_offline env k i = Some j" using assms(1) by (auto simp: present_pod_def split: option.splits if_splits)
  then have p: "ins = j \<and> ProcessCache env (qo_Event obj) ins k = Some k'"
    using assms(1) f by (auto simp: present_pod_def split: option.splits if_splits)
  then have "ins = i" using recover_offline_key [OF j] assms(2) by simp
  with f assms(3,4) show "IdentityKey ins = qo_ClusterID obj @ ''/'' @ qo_UID obj"
    using identity_of_pod [of obj pod "k_pushAppCodes k" ins] by (simp add: ConvertPod_def)
  from p show "ProcessCache env (qo_Event obj) ins k = Some k'" by blast
qed

lemma cached_after_ProcessCache:
  assumes "btree_laws (ke_btree env) valid" and "k_cache k = Some t" "valid t"
    and "ProcessCache env e ins k = Some k'" and "e \<in> {EventAdd, EventUpdate, EventDelete}"
  shows "cached env (IdentityKey ins) k' = Some ins \<and> (\<exists>t'. k_cache k' = Some t' \<and> valid t')"
  using assms btree_laws.Get_after_Insert [OF assms(1,3), of ins] btree_laws.valid_insert [OF assms(1,3), of ins]
  by (auto simp: ProcessCache_def cached_def cache_ReplaceOrInsert_def)

lemma cached_frame [simp]: "cached env key (k\<lparr>k_robot := r\<rparr>) = cached env key k"
  by (simp add: cached_def)

lemma IdentityKey_Status [simp]: "IdentityKey (ins\<lparr>Status := s\<rparr>) = IdentityKey ins"
  by (simp add: IdentityKey_def)

text \<open>C15: The life of a pod.  A pod added or updated is cached under the identity its
  deletion looks up: when the pod has left the store, the delete event sends the
  instance as it was sent last with the status offline, the cache keeps it as a
  tombstone, and a second delete event sends nothing.\<close>

theorem add_then_delete_deregisters:
  assumes "btree_laws (ke_btree env) valid" and "k_cache k = Some t" "valid t"
    and "pod2Instance env obj k = Some (Some ins, k1)" and "qo_Event obj \<in> {EventAdd, EventUpdate}"
    and "Status ins \<noteq> InstanceStatusOffline" and "qo_ClusterID obj \<noteq> []" "qo_UID obj \<noteq> []"
    and "qo_Event del = EventDelete" "qo_ClusterID del = qo_ClusterID obj" "qo_UID del = qo_UID obj"
    and "GetByClusterKey (ke_cwd env) Pods (qo_ClusterID del) (qo_Key del) r = ([], False)"
  shows "\<exists>k2. pod2Instance env del (k1\<lparr>k_robot := r\<rparr>) = Some (Some (ins\<lparr>Status := InstanceStatusOffline\<rparr>), k2)
    \<and> cached env (IdentityKey ins) k2 = Some (ins\<lparr>Status := InstanceStatusOffline\<rparr>)
    \<and> pod2Instance env del k2 = Some (None, k2)"
proof -
  have "qo_Event obj \<noteq> EventDelete" using assms(5) by (auto simp: EventAdd_def EventUpdate_def EventDelete_def)
  from pod2Instance_added [OF assms(4) this assms(8)] obtain pod where
    pp: "p_UID pod = qo_UID obj" "present_pod env obj pod k = Some (Some ins, k1)" by blast
  note key = present_pod_sent(1) [OF pp(2) assms(6,8) pp(1)] and pc = present_pod_sent(2) [OF pp(2) assms(6,8) pp(1)]
  have dk: "delete_key del = IdentityKey ins" using key assms(7,8,10,11) by (simp add: delete_key_def)
  let ?off = "ins\<lparr>Status := InstanceStatusOffline\<rparr>" let ?k = "k1\<lparr>k_robot := r\<rparr>"
  obtain t1 where c1: "cached env (IdentityKey ins) ?k = Some ins" "k_cache ?k = Some t1" "valid t1"
    using cached_after_ProcessCache [OF assms(1-3) pc] assms(5) by auto
  obtain k2 where k2: "ProcessCache env EventDelete ?off ?k = Some k2" "k_robot k2 = r"
    using c1(2) by (simp add: ProcessCache_def)
  have c2: "cached env (IdentityKey ins) k2 = Some ?off"
    using cached_after_ProcessCache [OF assms(1) c1(2,3) k2(1)] by simp
  have p: "pod2Instance env del k' = missing_pod env del k'" if "k_robot k' = r" for k'
    using that assms(7,10,12) by (simp add: pod2Instance_def)
  have "missing_pod env del ?k = Some (Some ?off, k2)" using c1(1) dk assms(6,9) k2(1) by (simp add: missing_pod_def Let_def)
  moreover have "missing_pod env del k2 = Some (None, k2)" using c2 dk by (simp add: missing_pod_def)
  ultimately show ?thesis using c2 p k2(2) by simp
qed

definition sample_web_pod :: pod where
  "sample_web_pod = sample_pod\<lparr>p_Labels := [(''app-code'', ''web''), (''K8S_CLUSTER_TYPE'', ''prod'')]\<rparr>"

definition sample_robot :: "k8s_obj option \<Rightarrow> robot" where
  "sample_robot obj = \<lparr>rb_clusters = [\<lparr>cw_cluster = \<lparr>cl_ClusterID = ''c'', cl_ConfigPath = ''/c'', cl_Resources = []\<rparr>,
     cw_informer = \<lparr>inf_HasSynced = True, inf_GetByKey = (\<lambda>_. Inr obj), inf_List = []\<rparr>\<rparr>],
     rb_queue = newCoalescingQueue 4, rb_stopped = False\<rparr>"

lemma sample_web_pod_converts:
  "case formatInstanceWithDeps (Some (sample_queue_object ''c'')) (Some sample_web_pod) None of
     None \<Rightarrow> False | Some i \<Rightarrow> Status i = 2 \<and> prov_instance_filter (Some i) = None"
  by code_simp

theorem add_then_delete_deregisters_witness:
  "\<exists>ins k1 k2. pod2Instance sample_k8s_env (sample_queue_object ''c'') ((sample_k8s [])\<lparr>k_robot := sample_robot (Some (PodObj (Some sample_web_pod)))\<rparr>)
      = Some (Some ins, k1) \<and> Status ins = 2
    \<and> pod2Instance sample_k8s_env ((sample_queue_object ''c'')\<lparr>qo_Event := EventDelete\<rparr>) (k1\<lparr>k_robot := sample_robot None\<rparr>)
      = Some (Some (ins\<lparr>Status := InstanceStatusOffline\<rparr>), k2)"
proof -
  let ?k = "(sample_k8s [])\<lparr>k_robot := sample_robot (Some (PodObj (Some sample_web_pod)))\<rparr>"
  let ?del = "(sample_queue_object ''c'')\<lparr>qo_Event := EventDelete\<rparr>"
  obtain ins where i: "formatInstanceWithDeps (Some (sample_queue_object ''c'')) (Some sample_web_pod) None = Some ins"
    "Status ins = 2" "prov_instance_filter (Some ins) = None"
    using sample_web_pod_converts by (auto split: option.splits)
  have "cached sample_k8s_env key ?k = None" for key
    by (simp add: cached_def sample_k8s_def sample_k8s_env_def cache_Get_def list_btree_def content_def cache_scan_def)
  then obtain k1 where p: "pod2Instance sample_k8s_env (sample_queue_object ''c'') ?k = Some (Some ins, k1)"
    using i by (simp add: pod2Instance_def GetByClusterKey_def sample_robot_def stored_def present_pod_def
      sample_queue_object_def sample_web_pod_def sample_pod_def k8s_VerifyInstance_def InitInstanceFilters_def
      recover_offline_def InstanceStatusOffline_def ProcessCache_def sample_k8s_def map_filter_simps)
  have "btree_laws (ke_btree sample_k8s_env) ascending" by (simp add: sample_k8s_env_def lb.btree_laws_axioms)
  from add_then_delete_deregisters [OF this _ _ p, of "[]" ?del "sample_robot None"] i(2) p show ?thesis
    by (simp add: sample_k8s_def sample_queue_object_def InstanceStatusOffline_def GetByClusterKey_def sample_robot_def stored_def)
       blast
qed

end
