(* ===== verification/Nacos_Wire.thy ===== *)
theory Nacos_Wire
  imports Canonical_Payload
begin

text \<open>
  The wire form of instances in Nacos, from src/pkg/nacos/nacos.go, batch.go and
  client.go: cluster and composite id, metadata, the flags of a registration, the
  reconstruction of an instance from a catalog entry, and the partition of a
  snapshot into batches.

  \<open>deflate\<close> and \<open>inflate\<close> are the two directions of gzip, \<open>parse_float\<close> is
  \<open>strconv.ParseFloat\<close> at 32 bits, which only reads the fallback field of entries
  written by other versions.  A Go string of the model has one UTF-16 unit per
  character.  The weight of a host is never read and left out.
\<close>

section \<open>Identifiers\<close>

definition DefaultGroup :: string where "DefaultGroup = ''DEFAULT_GROUP''"
definition DefaultNamespaceID :: string where "DefaultNamespaceID = ''public''"
definition DefaultCluster :: string where "DefaultCluster = ''DEFAULT''"
definition MaxNacosMetadataLength :: nat where "MaxNacosMetadataLength = 1024"
definition MaxPersistentBatchSize :: nat where "MaxPersistentBatchSize = 100"
definition metadataSchemaVersion :: string where "metadataSchemaVersion = ''1''"
definition metadataOwner :: string where "metadataOwner = ''spotter''"

record InstanceParams =
  ip_ServiceName :: string
  ip_IP :: string
  ip_Port :: int
  ip_ClusterName :: string
  ip_GroupName :: string
  ip_NamespaceID :: string
  ip_Enabled :: bool
  ip_Healthy :: "bool option"
  ip_Ephemeral :: bool
  ip_Metadata :: gomap

record Host =
  h_InstanceID :: string
  h_IP :: string
  h_Port :: int
  h_Healthy :: bool
  h_Enabled :: bool
  h_Ephemeral :: bool
  h_ClusterName :: string
  h_ServiceName :: string
  h_Metadata :: gomap

definition effectiveGroup :: "string \<Rightarrow> string" where
  "effectiveGroup grp = (if grp = [] then DefaultGroup else grp)"

definition effectiveNamespace :: "string \<Rightarrow> string" where
  "effectiveNamespace ns = (if ns = [] then DefaultNamespaceID else ns)"

definition clusterOf :: "inst \<Rightarrow> string" where
  "clusterOf ins =
    (if Cluster ins \<noteq> [] \<and> (SourceCluster ins = [] \<or> Cluster ins \<noteq> Provider ins) then SanitizeWireScope (Cluster ins)
     else if SourceCluster ins \<noteq> [] then SanitizeWireScope (SourceCluster ins)
     else if Provider ins \<noteq> [] then Provider ins
     else DefaultCluster)"

definition firstPort :: "inst \<Rightarrow> int" where
  "firstPort ins = (case Ports ins of Some p # _ \<Rightarrow> Port p | _ \<Rightarrow> 0)"

text \<open>The format \<open>%s#%d#%s#%s@@%s\<close> of a composite id.\<close>

definition composite :: "string \<Rightarrow> int \<Rightarrow> string \<Rightarrow> string \<Rightarrow> string \<Rightarrow> string" where
  "composite ip port cluster grp service =
     ip @ ''#'' @ int_digits port @ ''#'' @ cluster @ ''#'' @ grp @ ''@@'' @ service"

definition compositeIDWithGroup :: "inst \<Rightarrow> string \<Rightarrow> string" where
  "compositeIDWithGroup ins grp = composite (Ip ins) (firstPort ins) (clusterOf ins) (effectiveGroup grp) (AppCode ins)"

definition hostCompositeID :: "string \<Rightarrow> string \<Rightarrow> Host \<Rightarrow> string" where
  "hostCompositeID service grp host = composite (h_IP host) (h_Port host) (h_ClusterName host) (effectiveGroup grp) service"

definition wireOwnerScope :: "inst \<Rightarrow> string" where
  "wireOwnerScope ins = (if SourceCluster ins \<noteq> [] then ''source-cluster:'' @ SourceCluster ins
     else ''source-identity:'' @ IdentityKey ins)"

section \<open>Metadata\<close>

text \<open>\<open>FormatFloat\<close> in the format \<open>f\<close> with the shortest precision at 32 bits, for a finite
  number.\<close>

definition f32_fixed :: "float32 \<Rightarrow> string" where
  "f32_fixed a = (let (c, p) = f32_shortest a
     in (if f32_neg a then ''-'' else []) @ (if f32_abs a = 0 then ''0'' else fixed_text c p))"

text \<open>The metadata; \<^term>\<open>None\<close> is the panic of the payload for a CPU size that is not finite.\<close>

definition metadataOf :: "(string \<Rightarrow> string) \<Rightarrow> inst \<Rightarrow> gomap option" where
  "metadataOf deflate ins = (case CompressedCanonicalPayload deflate (Some ins) of
      None \<Rightarrow> None
    | Some payload \<Rightarrow> Some [
        (''spotterOwner'', metadataOwner), (''sourceKey'', SourceKey ins), (''sourceCluster'', SourceCluster ins),
        (''instanceId'', InstanceId ins), (''envType'', EnvType ins), (''envGroup'', EnvGroup ins),
        (''reversion'', int_digits (Reversion ins)), (''status'', int_digits (Status ins)), (''state'', State ins),
        (''idc'', Idc ins), (''cpu'', f32_fixed (Cpu ins)), (''version'', Version ins),
        (''schemaVersion'', metadataSchemaVersion), (''spotter.instance'', payload)])"

definition metadata_length :: "gomap \<Rightarrow> nat" where
  "metadata_length metadata = sum_list (map (\<lambda>(k, v). length k + length v) metadata)"

definition validateMetadataSize :: "gomap \<Rightarrow> error" where
  "validateMetadataSize metadata =
    (if MaxNacosMetadataLength < metadata_length metadata then Some (ErrClassified ''nacos: instance metadata exceeds limit'' True []) else None)"

definition persistentWireFlags :: "inst \<Rightarrow> bool \<Rightarrow> bool \<times> bool" where
  "persistentWireFlags ins sdkTransport =
    (if Status ins = InstanceStatusUnhealthy then (if sdkTransport then (True, False) else (False, False))
     else (Enabled ins, Enabled ins))"

section \<open>Reconstruction\<close>

definition parseStatus :: "string \<Rightarrow> bool \<Rightarrow> int32" where
  "parseStatus raw enabled =
    (let (v, err) = ParseInt64 raw
     in if raw \<noteq> [] \<and> \<not> err \<and> in_bits 32 v then v
        else if enabled then InstanceStatusOnline else InstanceStatusUnhealthy)"

definition statusAllowed :: "int32 list \<Rightarrow> int32 \<Rightarrow> bool" where
  "statusAllowed statuses status = (statuses = [] \<or> status \<in> set statuses)"

definition parseInt64 :: "string \<Rightarrow> int64" where
  "parseInt64 raw = (if raw = [] then 0 else let (v, err) = ParseInt64 raw in if err then 0 else v)"

text \<open>The instance of a payload, with what Nacos owns taken from the host.\<close>

definition wire_port :: "int \<Rightarrow> port_info option list \<Rightarrow> port_info option list" where
  "wire_port port ps = (case ps of
      [] \<Rightarrow> [Some (zero_port\<lparr>Port := to_int32 port\<rparr>)]
    | None # qs \<Rightarrow> Some (zero_port\<lparr>Port := to_int32 port\<rparr>) # qs
    | Some p # qs \<Rightarrow> Some (p\<lparr>Port := to_int32 port\<rparr>) # qs)"

definition overlay :: "string \<Rightarrow> Host \<Rightarrow> inst \<Rightarrow> inst" where
  "overlay service host decoded =
    decoded\<lparr>AppCode := service, Ip := h_IP host, Ports := wire_port (h_Port host) (Ports decoded),
      Provider := (if Provider decoded = [] then h_ClusterName host else Provider decoded),
      Enabled := (if Status decoded \<noteq> InstanceStatusUnhealthy then h_Enabled host else Enabled decoded),
      InstanceId := (if InstanceId decoded = [] then go_get (h_Metadata host) ''instanceId'' else InstanceId decoded)\<rparr>"

text \<open>The fallback on the scalar fields.\<close>

definition reconstruct_scalars :: "(string \<Rightarrow> float32 option) \<Rightarrow> string \<Rightarrow> Host \<Rightarrow> inst" where
  "reconstruct_scalars parse_float service host =
    (let md = h_Metadata host;
         reversion = (if go_get md ''schemaVersion'' \<noteq> metadataSchemaVersion then 0 else parseInt64 (go_get md ''reversion''))
     in zero_inst\<lparr>InstanceId := go_get md ''instanceId'', SourceKey := go_get md ''sourceKey'',
          SourceCluster := go_get md ''sourceCluster'', AppCode := service, Ip := h_IP host,
          Ports := [Some (zero_port\<lparr>Port := to_int32 (h_Port host)\<rparr>)], Provider := h_ClusterName host,
          Enabled := h_Enabled host, EnvType := go_get md ''envType'', EnvGroup := go_get md ''envGroup'',
          State := go_get md ''state'', Idc := go_get md ''idc'', Version := go_get md ''version'',
          Reversion := reversion, Status := parseStatus (go_get md ''status'') (h_Enabled host),
          Cpu := (case parse_float (go_get md ''cpu'') of Some c \<Rightarrow> c | None \<Rightarrow> 0)\<rparr>)"

definition reconstruct ::
  "(string \<Rightarrow> string result) \<Rightarrow> (string \<Rightarrow> float32 option) \<Rightarrow> string \<Rightarrow> Host \<Rightarrow> inst" where
  "reconstruct inflate parse_float service host =
    (if go_get (h_Metadata host) ''schemaVersion'' = metadataSchemaVersion then
       (case DecodeCompressedCanonicalPayload inflate (go_get (h_Metadata host) ''spotter.instance'') of
          Inr decoded \<Rightarrow> overlay service host decoded
        | Inl _ \<Rightarrow> reconstruct_scalars parse_float service host)
     else reconstruct_scalars parse_float service host)"

definition reconstructForTransport ::
  "(string \<Rightarrow> string result) \<Rightarrow> (string \<Rightarrow> float32 option) \<Rightarrow> string \<Rightarrow> Host \<Rightarrow> bool \<Rightarrow> inst" where
  "reconstructForTransport inflate parse_float service host sdkTransport =
    (let ins = reconstruct inflate parse_float service host
     in if sdkTransport \<and> Status ins = InstanceStatusUnhealthy \<and> \<not> h_Enabled host then ins\<lparr>Reversion := 0\<rparr> else ins)"

definition sourceOwnerScopeFromHost ::
  "(string \<Rightarrow> string result) \<Rightarrow> (string \<Rightarrow> float32 option) \<Rightarrow> string \<Rightarrow> Host \<Rightarrow> string" where
  "sourceOwnerScopeFromHost inflate parse_float service host = wireOwnerScope (reconstruct inflate parse_float service host)"

definition sourceIdentityFromHost ::
  "(string \<Rightarrow> string result) \<Rightarrow> (string \<Rightarrow> float32 option) \<Rightarrow> string \<Rightarrow> Host \<Rightarrow> string" where
  "sourceIdentityFromHost inflate parse_float service host =
    (let decoded = reconstruct inflate parse_float service host
     in if SourceKey decoded = [] \<and> SourceCluster decoded = [] \<and> InstanceId decoded = [] then [] else IdentityKey decoded)"

section \<open>Batches\<close>

datatype batchOperation = batchRegister | batchDeregister

definition persistentBatchOperation :: "int32 \<Rightarrow> batchOperation option" where
  "persistentBatchOperation status =
    (if status = InstanceStatusOnline \<or> status = InstanceStatusUnhealthy then Some batchRegister
     else if status = InstanceStatusOffline then Some batchDeregister else None)"

record persistentBatchScope =
  bs_namespace :: string
  bs_group :: string
  bs_service :: string
  bs_cluster :: string

record persistentBatch =
  pb_scope :: persistentBatchScope
  pb_operation :: batchOperation
  pb_items :: "(nat \<times> inst) list"

text \<open>A batch holds its items with their positions in the snapshot.  The map from keys
  to the last batch of a key is the last position with the key.\<close>

definition batch_key :: "string \<Rightarrow> string \<Rightarrow> inst \<Rightarrow> (persistentBatchScope \<times> batchOperation) option" where
  "batch_key ns grp ins = map_option (\<lambda>op.
     (\<lparr>bs_namespace = ns, bs_group = grp, bs_service = AppCode ins, bs_cluster = clusterOf ins\<rparr>, op))
     (persistentBatchOperation (Status ins))"

fun last_index :: "('a \<Rightarrow> bool) \<Rightarrow> 'a list \<Rightarrow> nat option" where
  "last_index P [] = None"
| "last_index P (x # xs) = (case last_index P xs of
      Some i \<Rightarrow> Some (Suc i)
    | None \<Rightarrow> if P x then Some 0 else None)"

definition add_to_batches ::
  "nat \<Rightarrow> persistentBatchScope \<times> batchOperation \<Rightarrow> nat \<times> inst \<Rightarrow> persistentBatch list \<Rightarrow> persistentBatch list" where
  "add_to_batches maxItems key item batches =
    (case last_index (\<lambda>b. (pb_scope b, pb_operation b) = key) batches of
       Some i \<Rightarrow> if length (pb_items (batches ! i)) < maxItems
                 then batches[i := (batches ! i)\<lparr>pb_items := pb_items (batches ! i) @ [item]\<rparr>]
                 else batches @ [\<lparr>pb_scope = fst key, pb_operation = snd key, pb_items = [item]\<rparr>]
     | None \<Rightarrow> batches @ [\<lparr>pb_scope = fst key, pb_operation = snd key, pb_items = [item]\<rparr>])"

fun split_batches ::
  "nat \<Rightarrow> string \<Rightarrow> string \<Rightarrow> nat \<Rightarrow> insts \<Rightarrow> persistentBatch list \<Rightarrow> persistentBatch list" where
  "split_batches maxItems ns grp index [] batches = batches"
| "split_batches maxItems ns grp index (None # xs) batches = split_batches maxItems ns grp (Suc index) xs batches"
| "split_batches maxItems ns grp index (Some ins # xs) batches =
    split_batches maxItems ns grp (Suc index) xs
      (case batch_key ns grp ins of None \<Rightarrow> batches | Some key \<Rightarrow> add_to_batches maxItems key (index, ins) batches)"

definition splitPersistentBatchesForScope :: "insts \<Rightarrow> int \<Rightarrow> string \<Rightarrow> string \<Rightarrow> persistentBatch list" where
  "splitPersistentBatchesForScope instances maxItems ns grp =
    (let n = (if maxItems < 1 then 1 else if int MaxPersistentBatchSize < maxItems then MaxPersistentBatchSize else nat maxItems)
     in split_batches n (effectiveNamespace ns) (effectiveGroup grp) 0 instances [])"

section \<open>Batches partition the snapshot\<close>

lemma last_index_None: "last_index P xs = None \<longleftrightarrow> (\<forall>x \<in> set xs. \<not> P x)"
  by (induction xs) (auto split: option.splits)

lemma last_index_Some:
  "last_index P xs = Some i \<Longrightarrow> \<exists>ys x zs. xs = ys @ x # zs \<and> length ys = i \<and> P x \<and> (\<forall>z \<in> set zs. \<not> P z)"
proof (induction xs arbitrary: i)
  case (Cons a xs)
  show ?case
  proof (cases "last_index P xs")
    case None
    with Cons.prems have "a # xs = [] @ a # xs \<and> length [] = i \<and> P a \<and> (\<forall>z \<in> set xs. \<not> P z)"
      using last_index_None [of P xs] by (simp split: if_splits)
    then show ?thesis by blast
  next
    case (Some j)
    then obtain ys x zs where "xs = ys @ x # zs" "length ys = j" "P x" "\<forall>z \<in> set zs. \<not> P z" using Cons.IH by blast
    then have "a # xs = (a # ys) @ x # zs \<and> length (a # ys) = i \<and> P x \<and> (\<forall>z \<in> set zs. \<not> P z)"
      using Some Cons.prems by simp
    then show ?thesis by blast
  qed
qed simp

text \<open>What is put under a key, over the batches in order.\<close>

definition batched :: "persistentBatchScope \<times> batchOperation \<Rightarrow> persistentBatch list \<Rightarrow> (nat \<times> inst) list" where
  "batched key batches = concat (map pb_items (filter (\<lambda>b. (pb_scope b, pb_operation b) = key) batches))"

definition bounded_batches :: "nat \<Rightarrow> persistentBatch list \<Rightarrow> bool" where
  "bounded_batches n batches \<longleftrightarrow> (\<forall>b \<in> set batches. pb_items b \<noteq> [] \<and> length (pb_items b) \<le> n)"

lemma batched_add:
  "batched key (add_to_batches n key' item batches) = batched key batches @ (if key' = key then [item] else [])"
proof (cases "last_index (\<lambda>b. (pb_scope b, pb_operation b) = key') batches")
  case None
  then show ?thesis by (cases key') (auto simp: add_to_batches_def batched_def)
next
  case (Some i)
  then obtain ys b zs where d: "batches = ys @ b # zs" "length ys = i" "(pb_scope b, pb_operation b) = key'"
    "\<forall>z \<in> set zs. (pb_scope z, pb_operation z) \<noteq> key'" using last_index_Some [OF Some] by blast
  then have z: "filter (\<lambda>b. (pb_scope b, pb_operation b) = key') zs = []" by (simp add: filter_empty_conv)
  have k: "pb_scope (b\<lparr>pb_items := its\<rparr>) = pb_scope b" "pb_operation (b\<lparr>pb_items := its\<rparr>) = pb_operation b" for its by simp_all
  have n: "batches ! i = b" "batches[i := c] = ys @ c # zs" for c using d by (auto simp: list_update_append)
  show ?thesis
  proof (cases "length (pb_items b) < n")
    case True
    then have "add_to_batches n key' item batches = ys @ b\<lparr>pb_items := pb_items b @ [item]\<rparr> # zs"
      by (simp add: add_to_batches_def Some n)
    then show ?thesis using d(1,3) z by (auto simp: batched_def k)
  next
    case False
    then have "add_to_batches n key' item batches = batches @ [\<lparr>pb_scope = fst key', pb_operation = snd key', pb_items = [item]\<rparr>]"
      by (simp add: add_to_batches_def Some n)
    then show ?thesis by (auto simp: batched_def)
  qed
qed

lemma bounded_add:
  assumes "bounded_batches n batches" and "0 < n"
  shows "bounded_batches n (add_to_batches n key item batches)"
proof (cases "last_index (\<lambda>b. (pb_scope b, pb_operation b) = key) batches")
  case None
  then show ?thesis using assms by (simp add: add_to_batches_def bounded_batches_def)
next
  case (Some i)
  then obtain ys b zs where "batches = ys @ b # zs" "length ys = i" using last_index_Some [OF Some] by blast
  then show ?thesis using Some assms by (auto simp: add_to_batches_def bounded_batches_def list_update_append)
qed

text \<open>The instances of a snapshot under a key, with their positions.\<close>

definition keyed :: "string \<Rightarrow> string \<Rightarrow> persistentBatchScope \<times> batchOperation \<Rightarrow> nat \<Rightarrow> insts \<Rightarrow> (nat \<times> inst) list" where
  "keyed ns grp key start xs =
     List.map_filter (\<lambda>(i, x). case x of Some ins \<Rightarrow> if batch_key ns grp ins = Some key then Some (i, ins) else None | None \<Rightarrow> None)
       (enumerate start xs)"

lemma keyed_simps [simp]:
  "keyed ns grp key i [] = []"
  "keyed ns grp key i (None # xs) = keyed ns grp key (Suc i) xs"
  "keyed ns grp key i (Some ins # xs) =
     (if batch_key ns grp ins = Some key then [(i, ins)] else []) @ keyed ns grp key (Suc i) xs"
  by (simp_all add: keyed_def map_filter_simps)

lemma split_batches_keyed:
  "batched key (split_batches n ns grp i xs batches) = batched key batches @ keyed ns grp key i xs"
  by (induction n ns grp i xs batches rule: split_batches.induct) (auto simp: batched_add split: option.splits)

lemma split_batches_bounded:
  "bounded_batches n batches \<Longrightarrow> 0 < n \<Longrightarrow> bounded_batches n (split_batches n ns grp i xs batches)"
  by (induction n ns grp i xs batches rule: split_batches.induct) (auto simp: bounded_add split: option.splits)

text \<open>C27: The batches of a snapshot are a partition of it: the items of each application
  scope and operation, taken over its batches in order, are exactly the instances
  with that scope and operation, each with its position and in the order of the
  snapshot; no batch is empty or larger than 100 items, and an instance of unknown
  status is in none.\<close>

theorem split_partitions_snapshot:
  "let batches = splitPersistentBatchesForScope xs maxItems ns grp
   in batched key batches = keyed (effectiveNamespace ns) (effectiveGroup grp) key 0 xs
      \<and> bounded_batches MaxPersistentBatchSize batches"
proof -
  define n where "n = (if maxItems < 1 then 1 else if int MaxPersistentBatchSize < maxItems then MaxPersistentBatchSize else nat maxItems)"
  have n: "0 < n" "n \<le> MaxPersistentBatchSize" by (auto simp: n_def MaxPersistentBatchSize_def)
  have s: "splitPersistentBatchesForScope xs maxItems ns grp = split_batches n (effectiveNamespace ns) (effectiveGroup grp) 0 xs []"
    by (simp add: splitPersistentBatchesForScope_def n_def)
  have "bounded_batches n []" by (simp add: bounded_batches_def)
  then have "bounded_batches MaxPersistentBatchSize (splitPersistentBatchesForScope xs maxItems ns grp)"
    using split_batches_bounded [OF _ n(1)] n(2) unfolding s bounded_batches_def by (meson order_trans)
  then show ?thesis by (simp add: s split_batches_keyed) (simp add: batched_def)
qed

section \<open>Composite ids identify\<close>

lemma int_digits_no_hash: "CHR ''#'' \<notin> set (int_digits i)"
proof -
  have "\<not> is_digit (CHR ''#'')" by (simp add: is_digit_def less_eq_char_def)
  then have "CHR ''#'' \<notin> set (nat_digits n)" for n using nat_digits_simps(2) [of n] by (auto simp: list_all_iff)
  then show ?thesis by (simp add: int_digits_def)
qed

lemma int_digits_inject: "int_digits i = int_digits j \<longleftrightarrow> i = j"
proof
  assume eq: "int_digits i = int_digits j"
  have "\<not> is_digit (CHR ''-'')" by (simp add: is_digit_def less_eq_char_def)
  then have h: "nat_digits n \<noteq> CHR ''-'' # xs" for n xs using nat_digits_simps(2) [of n] by auto
  have d: "nat_digits m = nat_digits n \<Longrightarrow> m = n" for m n using nat_digits_simps(1) by metis
  from eq h h [symmetric] show "i = j" by (auto simp: int_digits_def split: if_splits dest!: d)
qed simp

lemma hash_split: "a @ CHR ''#'' # x = b @ CHR ''#'' # y \<Longrightarrow> CHR ''#'' \<notin> set a \<Longrightarrow> CHR ''#'' \<notin> set b \<Longrightarrow> a = b \<and> x = y"
proof (induction a arbitrary: b)
  case Nil
  then show ?case by (cases b) auto
next
  case (Cons c a)
  then show ?case by (cases b) auto
qed

lemma composite_eq_iff:
  assumes "CHR ''#'' \<notin> set ip" "CHR ''#'' \<notin> set ip'" "CHR ''#'' \<notin> set c" "CHR ''#'' \<notin> set c'"
  shows "composite ip p c g s = composite ip' p' c' g s' \<longleftrightarrow> ip = ip' \<and> p = p' \<and> c = c' \<and> s = s'"
proof
  assume "composite ip p c g s = composite ip' p' c' g s'"
  then have "ip = ip' \<and> int_digits p @ CHR ''#'' # c @ CHR ''#'' # g @ ''@@'' @ s = int_digits p' @ CHR ''#'' # c' @ CHR ''#'' # g @ ''@@'' @ s'"
    using hash_split [OF _ assms(1,2)] by (simp add: composite_def)
  then have "ip = ip' \<and> int_digits p = int_digits p' \<and> c @ CHR ''#'' # g @ ''@@'' @ s = c' @ CHR ''#'' # g @ ''@@'' @ s'"
    using hash_split int_digits_no_hash by blast
  then have "ip = ip' \<and> int_digits p = int_digits p' \<and> c = c' \<and> g @ ''@@'' @ s = g @ ''@@'' @ s'"
    using hash_split [OF _ assms(3,4)] by blast
  then show "ip = ip' \<and> p = p' \<and> c = c' \<and> s = s'" by (simp add: int_digits_inject)
qed simp

lemma sanitized_no_hash: "CHR ''#'' \<notin> set (SanitizeWireScope v)"
proof -
  have "\<not> wire_char (CHR ''#'')" by (simp add: wire_char_def less_eq_char_def)
  then show ?thesis using Sanitize_chars [of _ v] by blast
qed

lemma clusterOf_no_hash: "CHR ''#'' \<notin> set (Provider ins) \<Longrightarrow> CHR ''#'' \<notin> set (clusterOf ins)"
  by (simp add: clusterOf_def sanitized_no_hash DefaultCluster_def)

text \<open>C28: Within a group the composite id of Nacos identifies the endpoint: two instances
  whose addresses and provider names have no separator have the same composite id
  exactly when they have the same address, first port, wire cluster and
  application.\<close>

theorem compositeID_identifies:
  assumes "CHR ''#'' \<notin> set (Ip a)" "CHR ''#'' \<notin> set (Ip b)" "CHR ''#'' \<notin> set (Provider a)" "CHR ''#'' \<notin> set (Provider b)"
  shows "compositeIDWithGroup a g = compositeIDWithGroup b g \<longleftrightarrow>
    Ip a = Ip b \<and> firstPort a = firstPort b \<and> clusterOf a = clusterOf b \<and> AppCode a = AppCode b"
  using assms by (simp add: compositeIDWithGroup_def composite_eq_iff clusterOf_no_hash)

theorem compositeID_identifies_witness:
  "compositeIDWithGroup (sample_new\<lparr>Ip := ''10.0.0.1''\<rparr>) [] \<noteq> compositeIDWithGroup (sample_new\<lparr>Ip := ''10.0.0.2''\<rparr>) []"
  using compositeID_identifies [of "sample_new\<lparr>Ip := ''10.0.0.1''\<rparr>" "sample_new\<lparr>Ip := ''10.0.0.2''\<rparr>" "[]"]
  by (simp add: sample_new_def zero_inst_def)

section \<open>What is registered is read back\<close>

text \<open>The catalog entry of a registration: Nacos stores what it is given.\<close>

definition registered_as :: "gomap \<Rightarrow> bool \<Rightarrow> inst \<Rightarrow> Host \<Rightarrow> bool" where
  "registered_as md sdk ins host \<longleftrightarrow> h_IP host = Ip ins \<and> h_Port host = firstPort ins
     \<and> h_Enabled host = fst (persistentWireFlags ins sdk) \<and> h_Metadata host = md"

lemma norm_inst_idem [simp]: "norm_inst (norm_inst i) = norm_inst i"
  by (simp add: norm_inst_def norm_map_cong [of "norm_map m" m for m])

lemma inst_typed_norm: "inst_typed i \<Longrightarrow> inst_typed (norm_inst i)"
  by (simp add: inst_typed_def norm_inst_def)

lemma to_int32_id: "in_bits 32 i \<Longrightarrow> to_int32 i = i"
  by (auto simp: in_bits_def to_int32_def intro!: signed_take_bit_int_eq_self)

lemma metadataOf_keys:
  assumes "metadataOf deflate ins = Some md" and "CompressedCanonicalPayload deflate (Some ins) = Some z"
  shows "go_get md ''schemaVersion'' = metadataSchemaVersion" "go_get md ''spotter.instance'' = z"
    "go_get md ''instanceId'' = InstanceId ins" "go_get md ''spotterOwner'' = metadataOwner"
  using assms by (auto simp: metadataOf_def go_get_def)

lemma reconstruct_registered:
  assumes "inst_typed ins" and "\<And>x. inflate (deflate x) = Inr x" and "\<And>x. deflate x \<noteq> []"
    and "metadataOf deflate ins = Some md" and "registered_as md sdk ins host" and "Provider ins \<noteq> []"
  shows "reconstruct inflate parse_float (AppCode ins) host = norm_inst (ins\<lparr>Ports := wire_port (firstPort ins) (Ports ins)\<rparr>)"
proof -
  obtain z where z: "CompressedCanonicalPayload deflate (Some ins) = Some z"
    "DecodeCompressedCanonicalPayload inflate z = Inr (norm_inst ins)"
    using compressed_decodes [where deflate = deflate and inflate = inflate, OF assms(1-3)] by blast
  note md = metadataOf_keys [OF assms(4) z(1)]
  have "reconstruct inflate parse_float (AppCode ins) host = overlay (AppCode ins) host (norm_inst ins)"
    using assms(5) md z(2) by (simp add: reconstruct_def registered_as_def)
  also have "\<dots> = norm_inst (ins\<lparr>Ports := wire_port (firstPort ins) (Ports ins)\<rparr>)"
    using assms(5,6) md by (cases ins) (auto simp: overlay_def norm_inst_def registered_as_def persistentWireFlags_def)
  finally show ?thesis .
qed

lemma wire_port_first: "inst_typed ins \<Longrightarrow> Ports ins = Some p # ps \<Longrightarrow> wire_port (firstPort ins) (Ports ins) = Ports ins"
  by (simp add: wire_port_def firstPort_def inst_typed_def port_typed_def to_int32_id)

lemma reconstructForTransport_registered:
  assumes "registered_as md sdk ins host" and "Status (reconstruct inflate parse_float service host) = Status ins"
  shows "reconstructForTransport inflate parse_float service host sdk = reconstruct inflate parse_float service host"
  using assms by (auto simp: reconstructForTransport_def registered_as_def persistentWireFlags_def Let_def)


text \<open>C38: An instance without ports never converges: it reads back with a port of number
  zero, so every comparison sees a drift and pushes it again.\<close>

theorem portless_instance_never_converges:
  assumes "inst_typed ins" and "\<And>x. inflate (deflate x) = Inr x" and "\<And>x. deflate x \<noteq> []"
    and "metadataOf deflate ins = Some md" and "registered_as md sdk ins host" and "Provider ins \<noteq> []" and "Ports ins = []"
  shows "DiffNacosReconcile (Some ins) (Some (reconstructForTransport inflate parse_float (AppCode ins) host sdk)) = Some True"
proof -
  let ?w = "ins\<lparr>Ports := [Some zero_port]\<rparr>"
  have "reconstruct inflate parse_float (AppCode ins) host = norm_inst ?w"
    using reconstruct_registered [where deflate = deflate and inflate = inflate, OF assms(1-6)] assms(7)
    by (simp add: wire_port_def firstPort_def to_int32_id in_bits_def zero_port_def)
  then have r: "reconstructForTransport inflate parse_float (AppCode ins) host sdk = norm_inst ?w"
    using reconstructForTransport_registered [OF assms(5)] by (simp add: norm_inst_def)
  have "inst_typed ?w" using assms(1) by (simp add: inst_typed_def port_typed_def zero_port_def in_bits_def)
  then have "inst_typed (norm_inst ?w)" by (simp add: inst_typed_norm)
  moreover have "norm_inst ins \<noteq> norm_inst (norm_inst ?w)"
    using assms(7) by (auto simp: norm_inst_def dest!: arg_cong [where f = Ports])
  ultimately show ?thesis using EqualNacosReconcile_norm [OF assms(1)] r by (simp add: DiffNacosReconcile_def)
qed

definition sample_wire :: "port_info option list \<Rightarrow> inst" where
  "sample_wire ps = sample_new\<lparr>Ip := ''10.0.0.1'', AppCode := ''web'', Status := 1, Enabled := True, Ports := ps\<rparr>"

definition sample_host :: "gomap \<Rightarrow> inst \<Rightarrow> Host" where
  "sample_host md ins = \<lparr>h_InstanceID = compositeIDWithGroup ins [], h_IP = Ip ins, h_Port = firstPort ins,
     h_Healthy = True, h_Enabled = fst (persistentWireFlags ins True), h_Ephemeral = False,
     h_ClusterName = clusterOf ins, h_ServiceName = AppCode ins, h_Metadata = md\<rparr>"

lemma sample_host_registered: "registered_as md True ins (sample_host md ins)"
  by (simp add: registered_as_def sample_host_def)

lemma sample_wire_typed: "inst_typed (sample_wire [])" "inst_typed (sample_wire [Some zero_port])"
  using sample_typed by (simp_all add: sample_wire_def inst_typed_def in_bits_def port_typed_def zero_port_def)

abbreviation prefix_z :: "string \<Rightarrow> string" where "prefix_z x \<equiv> CHR ''z'' # x"

abbreviation drop_z :: "string \<Rightarrow> string result" where
  "drop_z y \<equiv> (case y of [] \<Rightarrow> Inl (ErrNew []) | _ # x \<Rightarrow> Inr x)"

lemma metadataOf_typed:
  assumes "inst_typed i" and "\<And>x. (inflate (deflate x) :: string result) = Inr x" and "\<And>x. deflate x \<noteq> []"
  shows "\<exists>md. metadataOf deflate i = Some md"
  using compressed_decodes [where deflate = deflate and inflate = inflate, OF assms] by (auto simp: metadataOf_def)


theorem portless_instance_never_converges_witness:
  "\<exists>md. metadataOf prefix_z (sample_wire []) = Some md
    \<and> DiffNacosReconcile (Some (sample_wire []))
        (Some (reconstructForTransport drop_z (\<lambda>_. None) ''web'' (sample_host md (sample_wire [])) True)) = Some True"
proof -
  obtain md where md: "metadataOf prefix_z (sample_wire []) = Some md"
    using metadataOf_typed [OF sample_wire_typed(1), of drop_z prefix_z] by auto
  have w: "AppCode (sample_wire ps) = ''web''" "Provider (sample_wire ps) \<noteq> []" "Ports (sample_wire ps) = ps" for ps
    by (simp_all add: sample_wire_def sample_new_def)
  from portless_instance_never_converges [OF sample_wire_typed(1) _ _ md sample_host_registered, of drop_z "\<lambda>_. None"] md
  show ?thesis using w(2) unfolding w(1,3) by auto
qed

end
