(* ===== verification/Nacos_Sink.thy ===== *)
theory Nacos_Sink
  imports Nacos_Wire Sink_Port "HOL-Library.Sublist"
begin

text \<open>
  The Nacos sink of src/pkg/nacos/nacos.go and src/pkg/nacos/batch.go: incremental
  pushes, full snapshots in batches, and the prune of what the source no longer has.

  The naming client is the parameter \<open>nacos_ops\<close>, one function per method of
  \<open>Client\<close> on a registry of type \<open>'r\<close>; gzip and \<open>ParseFloat\<close> are as in \<open>Nacos_Wire\<close>.
  The calls for the instances of one push run concurrently in the code; the model
  takes them one after the other in an order given by \<open>n_schedule\<close>, and the
  claims that keep two of them apart are interleaved separately below.  Where the
  code ranges over a map the order is \<open>n_range\<close>.  A result \<^term>\<open>None\<close> is a panic.
\<close>

section \<open>State\<close>

datatype HealthPolicy = HealthPolicyDeploymentOwned | HealthPolicyAdminManaged | HealthPolicyVerified

record BatchMetrics =
  bm_Logical :: "64 word"
  bm_Items :: "64 word"
  bm_Attempted :: "64 word"
  bm_Succeeded :: "64 word"
  bm_Skipped :: "64 word"
  bm_Transient :: "64 word"
  bm_Permanent :: "64 word"
  bm_Failed :: "64 word"
  bm_PruneSkipped :: "64 word"

record Sink =
  sk_groupName :: string
  sk_namespace :: string
  sk_sdk :: bool
  sk_vendor :: bool
  sk_policy :: HealthPolicy
  sk_remembered :: "(string \<times> string) list"
  sk_wireOwners :: gomap
  sk_wireClaims :: gomap
  sk_wireScanned :: "(string \<times> string) list"
  sk_healthCheckDone :: "(string \<times> string) list"
  sk_metrics :: BatchMetrics

record 'r nacos_ops =
  n_Register :: "InstanceParams \<Rightarrow> 'r \<Rightarrow> error \<times> 'r"
  n_Deregister :: "InstanceParams \<Rightarrow> 'r \<Rightarrow> error \<times> 'r"
  n_Catalog :: "string \<Rightarrow> string \<Rightarrow> 'r \<Rightarrow> Host list result"
  n_AllCatalog :: "string \<Rightarrow> 'r \<Rightarrow> Host list result"
  n_Services :: "'r \<Rightarrow> string list result"
  n_UpdateCluster :: "string \<Rightarrow> string \<Rightarrow> 'r \<Rightarrow> error \<times> 'r"
  n_Session :: "'r \<Rightarrow> error"
  n_deflate :: "string \<Rightarrow> string"
  n_inflate :: "string \<Rightarrow> string result"
  n_parseFloat :: "string \<Rightarrow> float32 option"
  n_schedule :: "nat \<Rightarrow> nat list"
  n_range :: "(string \<times> string) list \<Rightarrow> (string \<times> string) list"
  n_rangeStrings :: "string list \<Rightarrow> string list"

type_synonym 'r sink_state = "Sink \<times> 'r"

definition sink_compositeID :: "Sink \<Rightarrow> inst \<Rightarrow> string" where
  "sink_compositeID s ins = compositeIDWithGroup ins (sk_groupName s)"

definition scope_of_key :: "Sink \<Rightarrow> string \<times> string \<Rightarrow> persistentBatchScope" where
  "scope_of_key s key = \<lparr>bs_namespace = effectiveNamespace (sk_namespace s), bs_group = sk_groupName s,
     bs_service = fst key, bs_cluster = snd key\<rparr>"

definition WireIdentityCollisionError :: "string \<Rightarrow> string \<Rightarrow> string \<Rightarrow> go_err" where
  "WireIdentityCollisionError compositeID existing incoming =
     ErrClassified (''nacos: composite identity is already owned: '' @ compositeID @ existing @ incoming) True []"

definition isCatalogNotFound :: "go_err \<Rightarrow> bool" where
  "isCatalogNotFound err = (case errors_As_api err of
      Some (status, body) \<Rightarrow> status = 500 \<and> sublist ''is not found'' body
    | None \<Rightarrow> False)"

text \<open>The class of \<open>ClusterAdminError\<close>, and the wrapper that adds it where it is missing.\<close>

definition cluster_admin_class :: string where "cluster_admin_class = ''nacos cluster-admin update''"

definition ClusterAdminError :: "go_err \<Rightarrow> go_err" where
  "ClusterAdminError err = ErrClassified cluster_admin_class (errors_As_permanent err = Some True) [err]"

fun has_class :: "string \<Rightarrow> go_err \<Rightarrow> bool" where
  "has_class c (ErrNew m) = False"
| "has_class c (ErrSentinel n) = False"
| "has_class c (ErrWrap m e) = has_class c e"
| "has_class c (ErrJoin es) = (\<exists>x \<in> set es. case x of None \<Rightarrow> False | Some e \<Rightarrow> has_class c e)"
| "has_class c (ErrFanout fs) = (\<exists>(s, e) \<in> set fs. has_class c e)"
| "has_class c (ErrClassified m p es) = (m = c \<or> (\<exists>e \<in> set es. has_class c e))"
| "has_class c (ErrAPI status body) = False"

definition typed_admin_error :: "go_err \<Rightarrow> go_err" where
  "typed_admin_error err = (if has_class cluster_admin_class err then err else ClusterAdminError err)"

section \<open>Ownership of composite ids\<close>

definition wire_owner :: "string \<Rightarrow> Sink \<Rightarrow> string" where
  "wire_owner wireID s = (let owner = go_get (sk_wireOwners s) wireID
     in if owner = [] then go_get (sk_wireClaims s) wireID else owner)"

fun validate_wire :: "gomap \<Rightarrow> insts \<Rightarrow> Sink \<Rightarrow> error" where
  "validate_wire seen [] s = None"
| "validate_wire seen (None # xs) s = validate_wire seen xs s"
| "validate_wire seen (Some ins # xs) s =
    (if persistentBatchOperation (Status ins) = None then validate_wire seen xs s
     else let wireID = sink_compositeID s ins; ownerScope = wireOwnerScope ins; owner = wire_owner wireID s in
       (case map_of seen wireID of
          Some previous \<Rightarrow> if previous \<noteq> ownerScope then Some (WireIdentityCollisionError wireID previous ownerScope)
             else if owner \<noteq> [] \<and> owner \<noteq> ownerScope then Some (WireIdentityCollisionError wireID owner ownerScope)
             else validate_wire (aupd wireID ownerScope seen) xs s
        | None \<Rightarrow> if owner \<noteq> [] \<and> owner \<noteq> ownerScope then Some (WireIdentityCollisionError wireID owner ownerScope)
             else validate_wire (aupd wireID ownerScope seen) xs s))"

definition validateWireIdentitySet :: "insts \<Rightarrow> Sink \<Rightarrow> error" where
  "validateWireIdentitySet instances s = validate_wire [] instances s"

text \<open>The owners read from a catalog; a second source for one id is an error.\<close>

fun catalog_owners :: "'r nacos_ops \<Rightarrow> string \<Rightarrow> string \<Rightarrow> Host list \<Rightarrow> gomap \<Rightarrow> gomap result" where
  "catalog_owners ops service grp [] owners = Inr owners"
| "catalog_owners ops service grp (host # hosts) owners =
    (if go_get (h_Metadata host) ''spotterOwner'' \<noteq> metadataOwner then catalog_owners ops service grp hosts owners
     else let wireID = hostCompositeID service grp host;
              ownerScope0 = sourceOwnerScopeFromHost (n_inflate ops) (n_parseFloat ops) service host;
              ownerScope = (if ownerScope0 = [] then ''<unknown-spotter-source>'' else ownerScope0);
              previous = go_get owners wireID
          in if previous \<noteq> [] \<and> previous \<noteq> ownerScope then Inl (WireIdentityCollisionError wireID previous ownerScope)
             else catalog_owners ops service grp hosts (aupd wireID ownerScope owners))"

text \<open>Merging them into the ledger, which keeps what was merged before a collision.\<close>

fun merge_owners :: "(string \<times> string) list \<Rightarrow> gomap \<Rightarrow> error \<times> gomap" where
  "merge_owners [] ledger = (None, ledger)"
| "merge_owners ((wireID, ownerScope) # xs) ledger =
    (let previous = go_get ledger wireID in
     if previous \<noteq> [] \<and> previous \<noteq> ownerScope then (Some (WireIdentityCollisionError wireID previous ownerScope), ledger)
     else merge_owners xs (aupd wireID ownerScope ledger))"

definition recoverWireOwnership :: "'r nacos_ops \<Rightarrow> inst \<Rightarrow> 'r sink_state \<Rightarrow> error \<times> 'r sink_state" where
  "recoverWireOwnership ops ins st = (case st of (s, r) \<Rightarrow>
    (if Ip ins = [] \<or> SourceKey ins = [] \<and> SourceCluster ins = [] then (None, st)
     else let scope = (AppCode ins, clusterOf ins) in
       if scope \<in> set (sk_wireScanned s) then (None, st)
       else let listed = (case n_Catalog ops (fst scope) (snd scope) r of
                Inl err \<Rightarrow> if isCatalogNotFound err then Inr [] else Inl (ErrWrap ''nacos: recover wire ownership'' err)
              | Inr hosts \<Rightarrow> Inr hosts)
         in (case listed of
            Inl err \<Rightarrow> (Some err, st)
          | Inr hosts \<Rightarrow>
             (case catalog_owners ops (fst scope) (sk_groupName s) hosts [] of
                Inl err \<Rightarrow> (Some err, st)
              | Inr owners \<Rightarrow>
                 (case merge_owners (n_range ops owners) (sk_wireOwners s) of
                    (Some err, ledger) \<Rightarrow> (Some err, s\<lparr>sk_wireOwners := ledger\<rparr>, r)
                  | (None, ledger) \<Rightarrow>
                      (None, s\<lparr>sk_wireOwners := ledger, sk_wireScanned := scope # sk_wireScanned s\<rparr>, r))))))"

text \<open>The claim before a write and its release after it.  The flag tells whether this
  claim is the one that set the entry.\<close>

definition claimWireIdentity :: "string \<Rightarrow> string \<Rightarrow> Sink \<Rightarrow> (go_err + bool) \<times> Sink" where
  "claimWireIdentity wireID ownerScope s =
    (let owner = go_get (sk_wireOwners s) wireID; claim = go_get (sk_wireClaims s) wireID in
     if owner \<noteq> [] \<and> owner \<noteq> ownerScope then (Inl (WireIdentityCollisionError wireID owner ownerScope), s)
     else if claim \<noteq> [] \<and> claim \<noteq> ownerScope then (Inl (WireIdentityCollisionError wireID claim ownerScope), s)
     else if claim = [] then (Inr True, s\<lparr>sk_wireClaims := aupd wireID ownerScope (sk_wireClaims s)\<rparr>)
     else (Inr False, s))"

definition releaseWireIdentity :: "string \<Rightarrow> string \<Rightarrow> bool \<Rightarrow> bool \<Rightarrow> Sink \<Rightarrow> Sink" where
  "releaseWireIdentity wireID ownerScope claimed success s =
    (let s = (if success then s\<lparr>sk_wireOwners := aupd wireID ownerScope (sk_wireOwners s)\<rparr> else s)
     in if go_get (sk_wireClaims s) wireID = ownerScope \<and> (claimed \<or> success)
        then s\<lparr>sk_wireClaims := adel wireID (sk_wireClaims s)\<rparr> else s)"

section \<open>Writing one instance\<close>

definition shouldApplyHealthPolicy :: "Sink \<Rightarrow> bool" where
  "shouldApplyHealthPolicy s = (sk_policy s = HealthPolicyAdminManaged)"

definition ensureClusterHealthCheckDisabled ::
  "'r nacos_ops \<Rightarrow> string \<Rightarrow> string \<Rightarrow> 'r sink_state \<Rightarrow> error \<times> 'r sink_state" where
  "ensureClusterHealthCheckDisabled ops service cluster st = (case st of (s, r) \<Rightarrow>
    (if \<not> shouldApplyHealthPolicy s \<or> (service, cluster) \<in> set (sk_healthCheckDone s) then (None, st)
     else case n_UpdateCluster ops service cluster r of
       (Some err, r') \<Rightarrow> (Some (typed_admin_error err), s, r')
     | (None, r') \<Rightarrow> (None, s\<lparr>sk_healthCheckDone := (service, cluster) # sk_healthCheckDone s\<rparr>, r')))"

definition register_params :: "bool \<Rightarrow> string \<Rightarrow> string \<Rightarrow> gomap \<Rightarrow> inst \<Rightarrow> InstanceParams" where
  "register_params sdk grp ns md ins = (case persistentWireFlags ins sdk of (enabled, healthy) \<Rightarrow>
     \<lparr>ip_ServiceName = AppCode ins, ip_IP = Ip ins, ip_Port = firstPort ins, ip_ClusterName = clusterOf ins,
      ip_GroupName = grp, ip_NamespaceID = ns, ip_Enabled = enabled, ip_Healthy = Some healthy,
      ip_Ephemeral = False, ip_Metadata = md\<rparr>)"

text \<open>The write between claim and release: the health policy first on the SDK, then the
  registration.\<close>

definition write_register ::
  "'r nacos_ops \<Rightarrow> string \<Rightarrow> string \<Rightarrow> gomap \<Rightarrow> inst \<Rightarrow> 'r sink_state \<Rightarrow> error \<times> 'r sink_state" where
  "write_register ops grp ns md ins st =
    (let (err, st) = (if sk_sdk (fst st) then ensureClusterHealthCheckDisabled ops (AppCode ins) (clusterOf ins) st else (None, st))
     in case err of
       Some e \<Rightarrow> (Some e, st)
     | None \<Rightarrow> (case n_Register ops (register_params (sk_sdk (fst st)) grp ns md ins) (snd st) of
         (Some e, r) \<Rightarrow> (Some e, fst st, r)
       | (None, r) \<Rightarrow> (None, fst st, r)))"

definition guarded_write ::
  "'r nacos_ops \<Rightarrow> (go_err \<Rightarrow> go_err) \<Rightarrow> string \<Rightarrow> string \<Rightarrow> gomap \<Rightarrow> inst \<Rightarrow> 'r sink_state \<Rightarrow> error \<times> 'r sink_state" where
  "guarded_write ops wrap grp ns md ins st = (case recoverWireOwnership ops ins st of
      (Some err, st) \<Rightarrow> (Some err, st)
    | (None, s, r) \<Rightarrow>
       (let wireID = sink_compositeID s ins; ownerScope = wireOwnerScope ins in
        case claimWireIdentity wireID ownerScope s of
          (Inl err, s) \<Rightarrow> (Some err, s, r)
        | (Inr claimed, s) \<Rightarrow>
           (case write_register ops grp ns md ins (s, r) of (err, s, r) \<Rightarrow>
              (map_option wrap err, releaseWireIdentity wireID ownerScope claimed (err = None) s, r))))"

definition register :: "'r nacos_ops \<Rightarrow> inst \<Rightarrow> 'r sink_state \<Rightarrow> (error \<times> 'r sink_state) option" where
  "register ops ins st = (case metadataOf (n_deflate ops) ins of
      None \<Rightarrow> None
    | Some md \<Rightarrow> Some (case validateMetadataSize md of
        Some err \<Rightarrow> (Some err, st)
      | None \<Rightarrow> (case guarded_write ops (ErrWrap ''nacos: register'') [] [] md ins st of (err, st) \<Rightarrow>
          if err = None \<and> \<not> sk_sdk (fst st)
          then (None, snd (ensureClusterHealthCheckDisabled ops (AppCode ins) (clusterOf ins) st))
          else (err, st))))"

definition deregister ::
  "'r nacos_ops \<Rightarrow> string \<Rightarrow> string \<Rightarrow> int \<Rightarrow> string \<Rightarrow> 'r sink_state \<Rightarrow> error \<times> 'r sink_state" where
  "deregister ops service ip port cluster st = (case st of (s, r) \<Rightarrow>
    (case n_Deregister ops \<lparr>ip_ServiceName = service, ip_IP = ip, ip_Port = port, ip_ClusterName = cluster,
         ip_GroupName = [], ip_NamespaceID = [], ip_Enabled = False, ip_Healthy = None, ip_Ephemeral = False, ip_Metadata = []\<rparr> r of
       (Some err, r) \<Rightarrow> (Some (ErrWrap ''nacos: deregister'' err), s, r)
     | (None, r) \<Rightarrow>
        (let wireID = composite ip port cluster (sk_groupName s) service
         in (None, s\<lparr>sk_wireOwners := adel wireID (sk_wireOwners s), sk_wireClaims := adel wireID (sk_wireClaims s)\<rparr>, r))))"

definition deregisterInstance :: "'r nacos_ops \<Rightarrow> inst \<Rightarrow> 'r sink_state \<Rightarrow> error \<times> 'r sink_state" where
  "deregisterInstance ops ins st = (case recoverWireOwnership ops ins st of
      (Some err, st) \<Rightarrow> (Some err, st)
    | (None, st) \<Rightarrow>
       (let wireID = sink_compositeID (fst st) ins; ownerScope = wireOwnerScope ins; owner = wire_owner wireID (fst st)
        in if owner \<noteq> [] \<and> owner \<noteq> ownerScope then (Some (WireIdentityCollisionError wireID owner ownerScope), st)
           else deregister ops (AppCode ins) (Ip ins) (firstPort ins) (clusterOf ins) st))"

definition pushOne :: "'r nacos_ops \<Rightarrow> inst \<Rightarrow> 'r sink_state \<Rightarrow> (error \<times> 'r sink_state) option" where
  "pushOne ops ins st =
    (if Status ins = InstanceStatusOffline then Some (if Ip ins = [] then (None, st) else deregisterInstance ops ins st)
     else if Status ins = InstanceStatusOnline \<or> Status ins = InstanceStatusUnhealthy then
       (if Ip ins = [] then Some (None, st) else register ops ins st)
     else Some (None, st))"

section \<open>Pushing a list\<close>

text \<open>Calls for the items of a list, made in the order of a schedule; the errors are kept
  by position.\<close>

fun run_calls ::
  "(nat \<Rightarrow> 's \<Rightarrow> (error \<times> 's) option) \<Rightarrow> nat list \<Rightarrow> 's \<Rightarrow> ((nat \<times> go_err) list \<times> 's) option" where
  "run_calls f [] st = Some ([], st)"
| "run_calls f (i # is) st = (case f i st of
      None \<Rightarrow> None
    | Some (err, st) \<Rightarrow> map_option (\<lambda>(errs, st). ((case err of Some e \<Rightarrow> [(i, e)] | None \<Rightarrow> []) @ errs, st)) (run_calls f is st))"

text \<open>The first error in the order of positions.\<close>

definition first_error :: "(nat \<times> go_err) list \<Rightarrow> error" where
  "first_error errs = (case sort_key fst errs of [] \<Rightarrow> None | (_, e) # _ \<Rightarrow> Some e)"

definition pushInstances :: "'r nacos_ops \<Rightarrow> insts \<Rightarrow> 'r sink_state \<Rightarrow> (error \<times> 'r sink_state) option" where
  "pushInstances ops instances st =
     map_option (\<lambda>(errs, st). (first_error errs, st))
       (run_calls (\<lambda>i st. case instances ! i of None \<Rightarrow> Some (None, st) | Some ins \<Rightarrow> pushOne ops ins st)
          (n_schedule ops (length instances)) st)"

text \<open>\<open>Push\<close>; the acknowledged instances are what an observer of writes is given.\<close>

definition sink_Push :: "'r nacos_ops \<Rightarrow> insts \<Rightarrow> 'r sink_state \<Rightarrow> (error \<times> inst list \<times> 'r sink_state) option" where
  "sink_Push ops instances st = map_option (\<lambda>(err, st). (err, if err = None then drop_none instances else [], st))
     (pushInstances ops instances st)"

section \<open>Reading the registry\<close>

fun scoped_catalog :: "'r nacos_ops \<Rightarrow> string \<Rightarrow> string list \<Rightarrow> 'r \<Rightarrow> Host list result" where
  "scoped_catalog ops service [] r = Inr []"
| "scoped_catalog ops service (scope # scopes) r = (case n_Catalog ops service scope r of
      Inl err \<Rightarrow> Inl err
    | Inr hosts \<Rightarrow> map_sum id (\<lambda>more. hosts @ more) (scoped_catalog ops service scopes r))"

definition rememberedClusterScopes :: "'r nacos_ops \<Rightarrow> Sink \<Rightarrow> string list" where
  "rememberedClusterScopes ops s = n_rangeStrings ops (remdups (filter (\<lambda>c. c \<noteq> []) (map snd (sk_remembered s))))"

definition service_hosts :: "'r nacos_ops \<Rightarrow> string \<Rightarrow> string \<Rightarrow> 'r sink_state \<Rightarrow> Host list result" where
  "service_hosts ops provider service st = (case st of (s, r) \<Rightarrow>
     if sk_sdk s then n_AllCatalog ops service r
     else let remembered = rememberedClusterScopes ops s;
              scopes = (if provider = ProviderEcs \<and> remembered \<noteq> [] then remembered else [provider])
          in scoped_catalog ops service scopes r)"

text \<open>Which hosts of a service become instances.\<close>

definition select_host :: "'r nacos_ops \<Rightarrow> bool \<Rightarrow> int32 list \<Rightarrow> string \<Rightarrow> string \<Rightarrow> Host \<Rightarrow> inst option" where
  "select_host ops sdk statuses provider service host =
    (if \<not> sdk \<and> provider \<noteq> ProviderEcs \<and> h_ClusterName host \<noteq> provider then None
     else if go_get (h_Metadata host) ''spotterOwner'' \<noteq> metadataOwner then None
     else let ins = reconstructForTransport (n_inflate ops) (n_parseFloat ops) service host sdk
          in if provider \<noteq> [] \<and> Provider ins \<noteq> provider \<and> clusterOf ins \<noteq> provider then None
             else if \<not> statusAllowed statuses (Status ins) then None else Some ins)"

fun collect_services ::
  "'r nacos_ops \<Rightarrow> int32 list \<Rightarrow> string \<Rightarrow> string list \<Rightarrow> 'r sink_state \<Rightarrow> inst list result" where
  "collect_services ops statuses provider [] st = Inr []"
| "collect_services ops statuses provider (service # services) st = (case service_hosts ops provider service st of
      Inl err \<Rightarrow> if isCatalogNotFound err then collect_services ops statuses provider services st else Inl err
    | Inr hosts \<Rightarrow> map_sum id (\<lambda>more. List.map_filter (select_host ops (sk_sdk (fst st)) statuses provider service) hosts @ more)
        (collect_services ops statuses provider services st))"

definition sink_GetAll :: "'r nacos_ops \<Rightarrow> int32 list \<Rightarrow> string \<Rightarrow> 'r sink_state \<Rightarrow> inst list result" where
  "sink_GetAll ops statuses provider st =
    (case (if sk_sdk (fst st) then n_Session ops (snd st) else None) of
       Some err \<Rightarrow> Inl err
     | None \<Rightarrow> (case n_Services ops (snd st) of
         Inl err \<Rightarrow> Inl err
       | Inr services \<Rightarrow> collect_services ops statuses provider services st))"

section \<open>Pruning\<close>

text \<open>The desired composite ids of every pair of service and cluster in the push, and the
  clusters in it.\<close>

definition authoritative :: "Sink \<Rightarrow> persistentBatchScope set \<Rightarrow> inst \<Rightarrow> bool" where
  "authoritative s skipped ins \<longleftrightarrow> persistentBatchOperation (Status ins) \<noteq> None
     \<and> scope_of_key s (AppCode ins, clusterOf ins) \<notin> skipped"

definition pushed :: "Sink \<Rightarrow> persistentBatchScope set \<Rightarrow> insts \<Rightarrow> inst list" where
  "pushed s skipped instances = filter (authoritative s skipped) (drop_none instances)"

definition desired_ids :: "Sink \<Rightarrow> persistentBatchScope set \<Rightarrow> insts \<Rightarrow> string \<times> string \<Rightarrow> string list" where
  "desired_ids s skipped instances key = map (sink_compositeID s)
     (filter (\<lambda>ins. (AppCode ins, clusterOf ins) = key \<and> Status ins \<noteq> InstanceStatusOffline) (pushed s skipped instances))"

definition pushed_pairs :: "Sink \<Rightarrow> persistentBatchScope set \<Rightarrow> insts \<Rightarrow> (string \<times> string) list" where
  "pushed_pairs s skipped instances = remdups (map (\<lambda>ins. (AppCode ins, clusterOf ins)) (pushed s skipped instances))"

definition pushedClusters :: "Sink \<Rightarrow> persistentBatchScope set \<Rightarrow> insts \<Rightarrow> string list \<Rightarrow> string list" where
  "pushedClusters s skipped instances scopes =
     remdups (filter (\<lambda>c. c \<noteq> []) scopes @ map snd (pushed_pairs s skipped instances))"

definition remember :: "(string \<times> string) list \<Rightarrow> Sink \<Rightarrow> Sink" where
  "remember pairs s = s\<lparr>sk_remembered := remdups (pairs @ sk_remembered s)\<rparr>"

text \<open>The pairs that the registry has for the clusters of the push.\<close>

fun discover :: "'r nacos_ops \<Rightarrow> persistentBatchScope set \<Rightarrow> string list \<Rightarrow> 'r sink_state \<Rightarrow> (string \<times> string) list result" where
  "discover ops skipped [] st = Inr []"
| "discover ops skipped (cluster # clusters) st =
    (case sink_GetAll ops [InstanceStatusOnline, InstanceStatusUnhealthy, InstanceStatusOffline] cluster st of
       Inl err \<Rightarrow> Inl (ErrWrap ''nacos: prune discover owned pairs'' err)
     | Inr remote \<Rightarrow> map_sum id (\<lambda>more.
         filter (\<lambda>key. scope_of_key (fst st) key \<notin> skipped)
           (map (\<lambda>item. (AppCode item, clusterOf item)) (filter (\<lambda>item. clusterOf item = cluster) remote)) @ more)
         (discover ops skipped clusters st))"

text \<open>The hosts to delete; a listing that fails is reported and the rest goes on.\<close>

definition stale_hosts :: "string list \<Rightarrow> string \<times> string \<Rightarrow> Host list \<Rightarrow> Host list" where
  "stale_hosts wanted key hosts = filter (\<lambda>host. h_ClusterName host = snd key \<and> h_InstanceID host \<notin> set wanted
     \<and> go_get (h_Metadata host) ''spotterOwner'' = metadataOwner) hosts"

fun prune_tasks ::
  "'r nacos_ops \<Rightarrow> (string \<times> string \<Rightarrow> string list) \<Rightarrow> (string \<times> string) list \<Rightarrow> 'r
    \<Rightarrow> go_err list \<times> ((string \<times> string) \<times> Host) list" where
  "prune_tasks ops wanted [] r = ([], [])"
| "prune_tasks ops wanted (key # keys) r = (case (prune_tasks ops wanted keys r, n_Catalog ops (fst key) (snd key) r) of
      ((errs, tasks), Inl err) \<Rightarrow> (if isCatalogNotFound err then errs else ErrWrap ''nacos: prune list'' err # errs, tasks)
    | ((errs, tasks), Inr hosts) \<Rightarrow> (errs, map (Pair key) (stale_hosts (wanted key) key hosts) @ tasks))"

text \<open>What a prune is going to delete, with the listing errors and the sink; an error
  before that ends it.\<close>

definition prune_plan ::
  "'r nacos_ops \<Rightarrow> insts \<Rightarrow> string list \<Rightarrow> persistentBatchScope set \<Rightarrow> 'r sink_state
    \<Rightarrow> (go_err + go_err list \<times> ((string \<times> string) \<times> Host) list) \<times> Sink" where
  "prune_plan ops instances scopes skipped st = (case st of (s, r) \<Rightarrow>
     (let pairs = pushed_pairs s skipped instances;
          clusters = pushedClusters s skipped instances scopes;
          s' = remember pairs s;
          swept = filter (\<lambda>key. snd key \<in> set clusters) (sk_remembered s')
      in case discover ops skipped (n_rangeStrings ops clusters) (s', r) of
           Inl err \<Rightarrow> (Inl err, s')
         | Inr found \<Rightarrow>
            (case (if sk_sdk s' then n_Session ops r else None) of
               Some err \<Rightarrow> (Inl err, s')
             | None \<Rightarrow>
                (Inr (prune_tasks ops (desired_ids s skipped instances)
                   (filter (\<lambda>key. scope_of_key s key \<notin> skipped) (n_range ops (remdups (pairs @ swept @ found)))) r), s'))))"

definition prune_deletes ::
  "'r nacos_ops \<Rightarrow> ((string \<times> string) \<times> Host) list \<Rightarrow> 'r sink_state \<Rightarrow> (nat \<times> go_err) list \<times> 'r sink_state" where
  "prune_deletes ops tasks st = the (run_calls (\<lambda>i st. case tasks ! i of (key, host) \<Rightarrow>
      Some (deregister ops (fst key) (h_IP host) (h_Port host) (snd key) st)) (n_schedule ops (length tasks)) st)"

definition pruneScopedWithSkippedScopes ::
  "'r nacos_ops \<Rightarrow> insts \<Rightarrow> string list \<Rightarrow> persistentBatchScope set \<Rightarrow> 'r sink_state \<Rightarrow> error \<times> 'r sink_state" where
  "pruneScopedWithSkippedScopes ops instances scopes skipped st = (case prune_plan ops instances scopes skipped st of
      (Inl err, s) \<Rightarrow> (Some err, s, snd st)
    | (Inr (errs, tasks), s) \<Rightarrow>
       (case prune_deletes ops tasks (s, snd st) of (failed, st) \<Rightarrow>
          ((case errs of e # _ \<Rightarrow> Some e | [] \<Rightarrow> first_error failed), st)))"

section \<open>Full snapshots\<close>

text \<open>One item of a batch: a registration through the SDK's vendor client has the group
  and the namespace of the batch, everything else goes through \<open>pushOne\<close>.\<close>

definition batch_item ::
  "'r nacos_ops \<Rightarrow> persistentBatch \<Rightarrow> inst \<Rightarrow> 'r sink_state \<Rightarrow> (error \<times> 'r sink_state) option" where
  "batch_item ops batch ins st =
    (if pb_operation batch = batchRegister \<and> sk_sdk (fst st) \<and> sk_vendor (fst st) then
       (if Ip ins = [] then Some (None, st)
        else case metadataOf (n_deflate ops) ins of
          None \<Rightarrow> None
        | Some md \<Rightarrow> Some (case validateMetadataSize md of
            Some err \<Rightarrow> (Some err, st)
          | None \<Rightarrow> guarded_write ops id (bs_group (pb_scope batch)) (bs_namespace (pb_scope batch)) md ins st))
     else pushOne ops ins st)"

text \<open>The order of the calls of a full push: one batch after the other, and within each
  batch the schedule of its items.\<close>

definition batch_calls :: "'r nacos_ops \<Rightarrow> persistentBatch list \<Rightarrow> (persistentBatch \<times> nat \<times> inst) list" where
  "batch_calls ops batches = concat (map (\<lambda>b. map (\<lambda>j. (b, pb_items b ! j)) (n_schedule ops (length (pb_items b)))) batches)"

fun run_batch_calls ::
  "'r nacos_ops \<Rightarrow> (persistentBatch \<times> nat \<times> inst) list \<Rightarrow> 'r sink_state
    \<Rightarrow> ((nat \<times> persistentBatchScope \<times> go_err) list \<times> 'r sink_state) option" where
  "run_batch_calls ops [] st = Some ([], st)"
| "run_batch_calls ops ((b, i, ins) # calls) st = (case batch_item ops b ins st of
      None \<Rightarrow> None
    | Some (err, st) \<Rightarrow> map_option (\<lambda>(fs, st). ((case err of Some e \<Rightarrow> [(i, pb_scope b, e)] | None \<Rightarrow> []) @ fs, st))
        (run_batch_calls ops calls st))"

definition count_batches :: "persistentBatch list \<Rightarrow> (nat \<times> persistentBatchScope \<times> go_err) list \<Rightarrow> BatchMetrics \<Rightarrow> BatchMetrics" where
  "count_batches batches failures m =
    (let admitted = sum_list (map (\<lambda>b. length (pb_items b)) batches);
         skipped = sum_list (map (\<lambda>b. if pb_operation b = batchRegister
             then length (filter (\<lambda>(_, ins). Ip ins = []) (pb_items b)) else 0) batches);
         permanent = length (filter (\<lambda>(_, _, e). IsPermanentError e) failures);
         transient = length failures - permanent;
         succeeded = admitted - length failures
     in m\<lparr>bm_Logical := bm_Logical m + of_nat (length batches), bm_Items := bm_Items m + of_nat admitted,
          bm_Attempted := bm_Attempted m + (of_nat admitted - of_nat skipped),
          bm_Succeeded := bm_Succeeded m + (of_nat succeeded - of_nat skipped),
          bm_Skipped := bm_Skipped m + of_nat skipped, bm_Transient := bm_Transient m + of_nat transient,
          bm_Permanent := bm_Permanent m + of_nat permanent,
          bm_Failed := bm_Failed m + (if failures = [] then 0 else 1)\<rparr>)"

definition pushPersistentBatches ::
  "'r nacos_ops \<Rightarrow> insts \<Rightarrow> 'r sink_state \<Rightarrow> ((persistentBatchScope \<times> go_err) list \<times> 'r sink_state) option" where
  "pushPersistentBatches ops instances st =
    (let batches = splitPersistentBatchesForScope instances (int MaxPersistentBatchSize) (sk_namespace (fst st)) (sk_groupName (fst st))
     in if batches = [] then Some ([], st)
        else map_option (\<lambda>(fs, s, r). (map snd (sort_key fst fs), s\<lparr>sk_metrics := count_batches batches fs (sk_metrics s)\<rparr>, r))
          (run_batch_calls ops (batch_calls ops batches) st))"

definition batchApplyError :: "(persistentBatchScope \<times> go_err) list \<Rightarrow> go_err" where
  "batchApplyError failures = ErrClassified ''nacos: persistent batch application failed''
     (failures \<noteq> [] \<and> list_all (\<lambda>(_, e). IsPermanentError e) failures) (map snd failures)"

text \<open>\<open>PushAll\<close>, with what the observer of writes is given.\<close>

definition sink_PushAll :: "'r nacos_ops \<Rightarrow> insts \<Rightarrow> 'r sink_state \<Rightarrow> (error \<times> inst list \<times> 'r sink_state) option" where
  "sink_PushAll ops instances st = (case validateWireIdentitySet instances (fst st) of
      Some err \<Rightarrow> Some (Some err, [], st)
    | None \<Rightarrow> map_option (\<lambda>(failures, s, r).
        if failures = [] then
          (case pruneScopedWithSkippedScopes ops instances [] {} (s, r) of (err, st) \<Rightarrow> (err, drop_none instances, st))
        else
          let skipped = set (map fst failures);
              m = sk_metrics s;
              s = s\<lparr>sk_metrics := m\<lparr>bm_PruneSkipped := bm_PruneSkipped m + of_nat (card skipped)\<rparr>\<rparr>
          in (case pruneScopedWithSkippedScopes ops instances [] skipped (s, r) of (pruneErr, st) \<Rightarrow>
               (case pruneErr of
                  None \<Rightarrow> (Some (batchApplyError failures), [], st)
                | Some e \<Rightarrow> (Some (ErrJoin [Some (batchApplyError failures), Some e]), [], st))))
        (pushPersistentBatches ops instances st))"

definition sink_PushAllOperation :: "'r nacos_ops \<Rightarrow> RetryOperation \<Rightarrow> 'r sink_state \<Rightarrow> (error \<times> inst list \<times> 'r sink_state) option" where
  "sink_PushAllOperation ops op st =
    (if OpInstances op \<noteq> [] then sink_PushAll ops (OpInstances op) st
     else if \<not> OpEmptyConfirmed op \<or> OpScope op = [] then Some (None, [], st)
     else Some (case pruneScopedWithSkippedScopes ops [] [OpScope op] {} st of (err, st) \<Rightarrow> (err, [], st)))"

text \<open>\<open>NewSinkWithConfig\<close> over a client constructor; the admin-managed policy needs an
  injected facade on the SDK.\<close>

definition NewSinkWithConfig ::
  "bool \<Rightarrow> HealthPolicy \<Rightarrow> bool \<Rightarrow> string \<Rightarrow> string \<Rightarrow> bool \<Rightarrow> bool result \<Rightarrow> Sink result" where
  "NewSinkWithConfig sdk policy has_admin groupName ns vendor newClient =
    (if sdk \<and> policy = HealthPolicyAdminManaged \<and> \<not> has_admin then Inl (ErrSentinel ''nacos: unsupported operation'')
     else case newClient of
       Inl err \<Rightarrow> Inl err
     | Inr client_has_admin \<Rightarrow>
        if sdk \<and> policy = HealthPolicyAdminManaged \<and> \<not> client_has_admin then Inl (ErrSentinel ''nacos: unsupported operation'')
        else Inr \<lparr>sk_groupName = effectiveGroup groupName, sk_namespace = ns, sk_sdk = sdk, sk_vendor = vendor, sk_policy = policy,
          sk_remembered = [], sk_wireOwners = [], sk_wireClaims = [], sk_wireScanned = [], sk_healthCheckDone = [],
          sk_metrics = \<lparr>bm_Logical = 0, bm_Items = 0, bm_Attempted = 0, bm_Succeeded = 0, bm_Skipped = 0, bm_Transient = 0,
            bm_Permanent = 0, bm_Failed = 0, bm_PruneSkipped = 0\<rparr>\<rparr>)"

section \<open>A prune deletes only its own\<close>

lemma prune_tasks_in:
  "(key, host) \<in> set (snd (prune_tasks ops wanted keys r)) \<Longrightarrow>
     key \<in> set keys \<and> h_ClusterName host = snd key \<and> h_InstanceID host \<notin> set (wanted key)
     \<and> go_get (h_Metadata host) ''spotterOwner'' = metadataOwner
     \<and> (\<exists>hosts. n_Catalog ops (fst key) (snd key) r = Inr hosts \<and> host \<in> set hosts)"
  by (induction keys) (auto simp: stale_hosts_def split: sum.splits prod.splits if_splits)

lemma discover_clusters:
  "discover ops skipped clusters st = Inr found \<Longrightarrow> key \<in> set found \<Longrightarrow> snd key \<in> set clusters"
  by (induction clusters arbitrary: found) (auto split: sum.splits simp: map_sum_def)

text \<open>C6: A prune deletes only what the push disowns.  Every host it is going to delete was
  listed under its pair, carries the owner mark of this program, lies in a cluster of
  the push or of an authorised scope and in no application scope whose batch failed,
  and is not the composite id of any instance of that pair that the push keeps.\<close>

theorem prune_deletes_only_disowned:
  assumes "prune_plan ops instances scopes skipped (s, r) = (Inr (errs, tasks), s')" and "(key, host) \<in> set tasks"
    and "\<And>xs. set (n_range ops xs) = set xs" and "\<And>xs. set (n_rangeStrings ops xs) = set xs"
  shows "go_get (h_Metadata host) ''spotterOwner'' = metadataOwner \<and> h_ClusterName host = snd key
    \<and> (\<exists>hosts. n_Catalog ops (fst key) (snd key) r = Inr hosts \<and> host \<in> set hosts)
    \<and> (snd key \<in> set scopes \<or> (\<exists>ins \<in> set (pushed s skipped instances). clusterOf ins = snd key))
    \<and> scope_of_key s key \<notin> skipped
    \<and> (\<forall>ins \<in> set (pushed s skipped instances). (AppCode ins, clusterOf ins) = key \<and> Status ins \<noteq> InstanceStatusOffline
         \<longrightarrow> h_InstanceID host \<noteq> sink_compositeID s ins)"
proof -
  let ?pairs = "pushed_pairs s skipped instances" let ?cl = "pushedClusters s skipped instances scopes"
  let ?s = "remember ?pairs s" let ?swept = "filter (\<lambda>key. snd key \<in> set ?cl) (sk_remembered ?s)"
  obtain found where f: "discover ops skipped (n_rangeStrings ops ?cl) (?s, r) = Inr found"
    and t: "tasks = snd (prune_tasks ops (desired_ids s skipped instances)
       (filter (\<lambda>key. scope_of_key s key \<notin> skipped) (n_range ops (remdups (?pairs @ ?swept @ found)))) r)"
    using assms(1) unfolding prune_plan_def by (auto simp: Let_def split: sum.splits option.splits if_splits)
  note k = prune_tasks_in [OF assms(2) [unfolded t]]
  have "key \<in> set ?pairs \<or> key \<in> set ?swept \<or> key \<in> set found" using k assms(3) by auto
  then have "snd key \<in> set ?cl"
    using discover_clusters [OF f, of key] unfolding assms(4) by (auto simp: pushedClusters_def)
  then have "snd key \<in> set scopes \<or> (\<exists>ins \<in> set (pushed s skipped instances). clusterOf ins = snd key)"
    by (auto simp: pushedClusters_def pushed_pairs_def)
  with k show ?thesis by (auto simp: desired_ids_def)
qed

text \<open>A registry that is a list of hosts with their service, for the examples.\<close>

definition sample_registry_ops :: "((string \<times> Host) list) nacos_ops" where
  "sample_registry_ops = \<lparr>n_Register = (\<lambda>p r. (None, r)),
     n_Deregister = (\<lambda>p r. (None, filter (\<lambda>(svc, h). \<not> (svc = ip_ServiceName p \<and> h_IP h = ip_IP p
        \<and> h_Port h = ip_Port p \<and> h_ClusterName h = ip_ClusterName p)) r)),
     n_Catalog = (\<lambda>svc c r. Inr (map snd (filter (\<lambda>(v, h). v = svc \<and> (c = [] \<or> h_ClusterName h = c)) r))),
     n_AllCatalog = (\<lambda>svc r. Inr (map snd (filter (\<lambda>(v, h). v = svc) r))),
     n_Services = (\<lambda>r. Inr (remdups (map fst r))), n_UpdateCluster = (\<lambda>_ _ r. (None, r)), n_Session = (\<lambda>_. None),
     n_deflate = (\<lambda>x. x), n_inflate = (\<lambda>_. Inl (ErrNew [])), n_parseFloat = (\<lambda>_. None),
     n_schedule = (\<lambda>n. [0..<n]), n_range = (\<lambda>xs. xs), n_rangeStrings = (\<lambda>xs. xs)\<rparr>"

definition sample_sink :: Sink where
  "sample_sink = \<lparr>sk_groupName = DefaultGroup, sk_namespace = [], sk_sdk = True, sk_vendor = False,
     sk_policy = HealthPolicyDeploymentOwned, sk_remembered = [], sk_wireOwners = [], sk_wireClaims = [], sk_wireScanned = [],
     sk_healthCheckDone = [], sk_metrics = \<lparr>bm_Logical = 0, bm_Items = 0, bm_Attempted = 0, bm_Succeeded = 0, bm_Skipped = 0,
       bm_Transient = 0, bm_Permanent = 0, bm_Failed = 0, bm_PruneSkipped = 0\<rparr>\<rparr>"

definition sample_entry :: "string \<Rightarrow> string \<Rightarrow> Host" where
  "sample_entry ip cluster = \<lparr>h_InstanceID = ip, h_IP = ip, h_Port = 80, h_Healthy = True, h_Enabled = True,
     h_Ephemeral = False, h_ClusterName = cluster, h_ServiceName = ''web'',
     h_Metadata = [(''spotterOwner'', ''spotter''), (''status'', ''1'')]\<rparr>"

lemma sample_plan:
  "prune_plan sample_registry_ops [Some (sample_wire [])] [] {} (sample_sink, [(''web'', sample_entry ''10.0.0.9'' ''k8s'')])
    = (Inr ([], [((''web'', ''k8s''), sample_entry ''10.0.0.9'' ''k8s'')]),
       sample_sink\<lparr>sk_remembered := [(''web'', ''k8s'')]\<rparr>)"
  by code_simp

theorem prune_deletes_only_disowned_witness:
  "go_get (h_Metadata (sample_entry ''10.0.0.9'' ''k8s'')) ''spotterOwner'' = metadataOwner
   \<and> h_InstanceID (sample_entry ''10.0.0.9'' ''k8s'') \<noteq> sink_compositeID sample_sink (sample_wire [])"
proof -
  have p: "sample_wire [] \<in> set (pushed sample_sink {} [Some (sample_wire [])])" by code_simp
  have k: "(AppCode (sample_wire []), clusterOf (sample_wire [])) = (''web'', ''k8s'') \<and> Status (sample_wire []) \<noteq> InstanceStatusOffline"
    by code_simp
  from prune_deletes_only_disowned [OF sample_plan, of "(''web'', ''k8s'')" "sample_entry ''10.0.0.9'' ''k8s''"] p k
  show ?thesis by (simp add: sample_registry_ops_def)
qed

section \<open>A confirmed empty snapshot\<close>

lemma discover_none:
  assumes "\<And>remote i. sink_GetAll ops [InstanceStatusOnline, InstanceStatusUnhealthy, InstanceStatusOffline] c st = Inr remote
      \<Longrightarrow> i \<in> set remote \<Longrightarrow> clusterOf i \<noteq> c"
  shows "discover ops skipped [c] st = Inr found \<Longrightarrow> found = []"
  using assms by (auto simp: filter_empty_conv split: sum.splits)

text \<open>C39: A confirmed empty snapshot of the scope \<open>k8s\<close> removes nothing when the instances of
  the provider are registered under the names of their source clusters: if neither a
  remembered pair nor an instance found in the registry has the scope as its wire
  cluster, the registry stays as it is.\<close>

theorem confirmed_empty_snapshot_removes_nothing:
  assumes "OpInstances op = []" and "\<forall>key \<in> set (sk_remembered s). snd key \<noteq> OpScope op"
    and "\<And>remote i. sink_GetAll ops [InstanceStatusOnline, InstanceStatusUnhealthy, InstanceStatusOffline] (OpScope op) (s, r)
        = Inr remote \<Longrightarrow> i \<in> set remote \<Longrightarrow> clusterOf i \<noteq> OpScope op"
    and "\<And>xs. set (n_range ops xs) = set xs" and "n_rangeStrings ops [OpScope op] = [OpScope op]" and "n_schedule ops 0 = []"
  shows "\<exists>err s'. sink_PushAllOperation ops op (s, r) = Some (err, [], s', r)"
proof (cases "\<not> OpEmptyConfirmed op \<or> OpScope op = []")
  case True
  then show ?thesis using assms(1) by (simp add: sink_PushAllOperation_def)
next
  case False
  let ?s = "remember [] s"
  have m: "?s = s\<lparr>sk_remembered := remdups (sk_remembered s)\<rparr>" by (simp add: remember_def)
  have g: "sink_GetAll ops st c (?s, r) = sink_GetAll ops st c (s, r)" for st c
  proof -
    have "rememberedClusterScopes ops ?s = rememberedClusterScopes ops s"
      by (simp add: rememberedClusterScopes_def m remdups_filter remdups_map_remdups)
    then have "service_hosts ops p v (?s, r) = service_hosts ops p v (s, r)" for p v
      by (simp add: service_hosts_def m)
    then have "collect_services ops st c vs (?s, r) = collect_services ops st c vs (s, r)" for vs
      by (induction vs) (simp_all add: m split: sum.splits)
    then show ?thesis by (simp add: sink_GetAll_def m split: sum.splits option.splits)
  qed
  have swept: "filter (\<lambda>key. snd key = OpScope op) (sk_remembered ?s) = []"
    using assms(2) by (simp add: m filter_empty_conv)
  have e: "n_range ops [] = []" using assms(4) [of "[]"] by simp
  have "prune_plan ops [] [OpScope op] {} (s, r) \<in> {(Inr ([], []), ?s)} \<union> {(Inl err, ?s) | err. True}"
    using discover_none [of ops "OpScope op" "(?s, r)" "{}"] assms(3,5) False swept e unfolding g
    by (auto simp: prune_plan_def pushed_pairs_def pushed_def pushedClusters_def Let_def split: sum.splits option.splits if_splits)
  then show ?thesis using False assms(1,6)
    by (auto simp: sink_PushAllOperation_def pruneScopedWithSkippedScopes_def prune_deletes_def)
qed

definition sample_k8s_entry :: Host where
  "sample_k8s_entry = (sample_entry ''10.0.0.9'' ''c1'')\<lparr>h_Metadata :=
     [(''spotterOwner'', ''spotter''), (''status'', ''1''), (''sourceCluster'', ''c1'')]\<rparr>"

theorem confirmed_empty_snapshot_removes_nothing_witness:
  "\<exists>err s'. sink_PushAllOperation sample_registry_ops (zero_op\<lparr>OpScope := ''k8s'', OpEmptyConfirmed := True\<rparr>)
     (sample_sink, [(''web'', sample_k8s_entry)]) = Some (err, [], s', [(''web'', sample_k8s_entry)])"
proof -
  have g: "sink_GetAll sample_registry_ops [InstanceStatusOnline, InstanceStatusUnhealthy, InstanceStatusOffline] ''k8s''
      (sample_sink, [(''web'', sample_k8s_entry)]) = Inr []" by code_simp
  show ?thesis
    by (rule confirmed_empty_snapshot_removes_nothing)
      (simp_all add: zero_op_def sample_sink_def [THEN arg_cong [where f = sk_remembered]] g sample_registry_ops_def [THEN arg_cong [where f = n_range]]
        sample_registry_ops_def [THEN arg_cong [where f = n_rangeStrings]] sample_registry_ops_def [THEN arg_cong [where f = n_schedule]])
qed

section \<open>Claims under concurrency\<close>

text \<open>Writers in flight, each with its id, its source and whether it set the claim.  With
  \<open>excl\<close> no two writers of one source have the same id at the same time.\<close>

inductive wire_step :: "bool \<Rightarrow> Sink \<times> (string \<times> string \<times> bool) list \<Rightarrow> Sink \<times> (string \<times> string \<times> bool) list \<Rightarrow> bool" for excl where
  claim: "claimWireIdentity w sc s = (Inr c, s') \<Longrightarrow> sc \<noteq> [] \<Longrightarrow> (excl \<longrightarrow> (\<forall>b. (w, sc, b) \<notin> set fl)) \<Longrightarrow>
    wire_step excl (s, fl) (s', fl @ [(w, sc, c)])"
| release: "wire_step excl (s, xs @ (w, sc, c) # ys) (releaseWireIdentity w sc c ok s, xs @ ys)"

definition claims_inv :: "Sink \<times> (string \<times> string \<times> bool) list \<Rightarrow> bool" where
  "claims_inv st \<longleftrightarrow> distinct (map fst (snd st))
     \<and> (\<forall>w sc c. (w, sc, c) \<in> set (snd st) \<longrightarrow> c \<and> sc \<noteq> [] \<and> go_get (sk_wireClaims (fst st)) w = sc)
     \<and> (\<forall>w. go_get (sk_wireClaims (fst st)) w \<noteq> [] \<longrightarrow> (w, go_get (sk_wireClaims (fst st)) w, True) \<in> set (snd st))"

lemma claims_invD: "claims_inv (s, fl) \<Longrightarrow> (w, sc, c) \<in> set fl \<Longrightarrow> c \<and> sc \<noteq> [] \<and> go_get (sk_wireClaims s) w = sc"
  unfolding claims_inv_def fst_conv snd_conv by blast

lemma claims_inv_step: "wire_step True st st' \<Longrightarrow> claims_inv st \<Longrightarrow> claims_inv st'"
proof (induction rule: wire_step.induct)
  case (claim w sc s c s' fl)
  have n: "go_get (sk_wireClaims s) w = []"
  proof (rule ccontr)
    assume "go_get (sk_wireClaims s) w \<noteq> []"
    moreover from this have "go_get (sk_wireClaims s) w = sc"
      using claim(1) by (auto simp: claimWireIdentity_def Let_def split: if_splits)
    ultimately show False using claim(3,4) unfolding claims_inv_def by auto
  qed
  then have c: "c" "s' = s\<lparr>sk_wireClaims := aupd w sc (sk_wireClaims s)\<rparr>"
    using claim(1) by (auto simp: claimWireIdentity_def Let_def split: if_splits)
  have "w \<notin> fst ` set fl" using claim(4) n unfolding claims_inv_def by force
  moreover have "go_get (sk_wireClaims s') x = (if x = w then sc else go_get (sk_wireClaims s) x)" for x
    using c(2) by (simp add: go_get_def)
  ultimately show ?case using claim(2,4) c(1) n unfolding claims_inv_def by (force simp: image_iff)
next
  case (release s xs w sc c ys ok)
  have i: "c" "go_get (sk_wireClaims s) w = sc" using claims_invD [OF release, of w sc c] by simp_all
  have d: "w \<notin> fst ` set (xs @ ys)" using release by (auto simp: claims_inv_def image_iff)
  have "sk_wireClaims (releaseWireIdentity w sc c ok s) = adel w (sk_wireClaims s)"
    using i by (simp add: releaseWireIdentity_def Let_def)
  then have g: "go_get (sk_wireClaims (releaseWireIdentity w sc c ok s)) x = (if x = w then [] else go_get (sk_wireClaims s) x)" for x
    by (simp add: go_get_def)
  have "b \<and> d \<noteq> [] \<and> go_get (sk_wireClaims s) v = d \<and> v \<noteq> w" if "(v, d, b) \<in> set (xs @ ys)" for v d b
  proof -
    have "v \<noteq> w" using that d by (metis fst_conv image_eqI)
    then show ?thesis using claims_invD [OF release, of v d b] that by simp
  qed
  moreover have "(v, go_get (sk_wireClaims s) v, True) \<in> set (xs @ ys)" if "v \<noteq> w" "go_get (sk_wireClaims s) v \<noteq> []" for v
    using release that unfolding claims_inv_def by auto
  ultimately show ?case using release unfolding claims_inv_def fst_conv snd_conv g by (auto split: if_splits)
qed



text \<open>C40: Without that condition they do not: when two writers of one source share a
  composite id, the failure of the first releases the claim the second still needs,
  and a writer of another source is let in beside it.\<close>

theorem wire_claim_race:
  assumes "a \<noteq> []" "b \<noteq> []" "a \<noteq> b" "sk_wireOwners s = []" "sk_wireClaims s = []"
  shows "\<exists>s'. (wire_step False)\<^sup>*\<^sup>* (s, []) (s', [(w, a, False), (w, b, True)])"
proof -
  let ?a = "s\<lparr>sk_wireClaims := [(w, a)]\<rparr>" let ?b = "s\<lparr>sk_wireClaims := [(w, b)]\<rparr>"
  have 1: "wire_step False (s, []) (?a, [] @ [(w, a, True)])"
    by (rule wire_step.claim) (use assms in \<open>simp_all add: claimWireIdentity_def go_get_def\<close>)
  have 2: "wire_step False (?a, [(w, a, True)]) (?a, [(w, a, True)] @ [(w, a, False)])"
    by (rule wire_step.claim) (use assms in \<open>simp_all add: claimWireIdentity_def go_get_def\<close>)
  have "releaseWireIdentity w a True False ?a = s"
    using assms(5) by (simp add: releaseWireIdentity_def go_get_def adel_def)
  with wire_step.release [of False ?a "[]" w a True "[(w, a, False)]" False]
  have 3: "wire_step False (?a, [(w, a, True), (w, a, False)]) (s, [(w, a, False)])" by simp
  have 4: "wire_step False (s, [(w, a, False)]) (?b, [(w, a, False)] @ [(w, b, True)])"
    by (rule wire_step.claim) (use assms in \<open>simp_all add: claimWireIdentity_def go_get_def\<close>)
  from 1 2 3 4 have "(wire_step False)\<^sup>*\<^sup>* (s, []) (?b, [(w, a, False), (w, b, True)])"
    by (simp add: rtranclp.rtrancl_into_rtrancl [OF rtranclp.rtrancl_into_rtrancl [OF rtranclp.rtrancl_into_rtrancl [OF r_into_rtranclp]]])
  then show ?thesis by blast
qed

theorem wire_claim_race_witness:
  "\<exists>s'. (wire_step False)\<^sup>*\<^sup>* (sample_sink, []) (s', [(''w'', ''source-cluster:a'', False), (''w'', ''source-cluster:b'', True)])"
  by (rule wire_claim_race) (simp_all add: sample_sink_def)

end
