(* ===== verification/Consul_Source.thy ===== *)
theory Consul_Source
  imports Instance_Model "HOL-Library.Word"
begin

text \<open>
  The configuration of Consul sources (src/pkg/providers/consul/source.go), the
  client factory that finds a healthy endpoint (client_factory.go) and the watch of
  monitor.go: the index of the blocking query and the debounced hand-over of a
  change to the provider.

  The Consul API package is outside the repository: its client constructor and
  the leader probe are parameters, and its configuration records have the fields
  that the code sets.
\<close>

section \<open>Sources\<close>

record api_TLSConfig =
  tls_Address :: string
  tls_CAFile :: string
  tls_CertFile :: string
  tls_KeyFile :: string
  tls_InsecureSkipVerify :: bool
  tls_CAPem :: "string option"
  tls_CertPEM :: "string option"
  tls_KeyPEM :: "string option"

record ConsulClientOptions =
  co_Token :: string
  co_TokenFile :: string
  co_TLSConfig :: api_TLSConfig
  co_TLSCAFile :: string
  co_TLSCertFile :: string
  co_TLSKeyFile :: string
  co_TLSServerName :: string
  co_TLSInsecureSkipVerify :: bool
  co_HTTPTimeout :: int64
  co_Datacenter :: string
  co_Namespace :: string

record ConsulSource =
  cs_ID :: string
  cs_Addresses :: "string list"
  cs_Token :: string
  cs_TokenFile :: string
  cs_TLSConfig :: api_TLSConfig
  cs_TLSCAFile :: string
  cs_TLSCertFile :: string
  cs_TLSKeyFile :: string
  cs_TLSServerName :: string
  cs_TLSInsecureSkipVerify :: bool
  cs_Datacenter :: string
  cs_Namespace :: string
  cs_CAFile :: string
  cs_CertFile :: string
  cs_KeyFile :: string
  cs_ServerName :: string
  cs_InsecureSkipVerify :: bool

definition clientOptions :: "ConsulSource \<Rightarrow> ConsulClientOptions" where
  "clientOptions s =
    (let caFile = (if cs_TLSCAFile s = [] then cs_CAFile s else cs_TLSCAFile s);
         certFile = (if cs_TLSCertFile s = [] then cs_CertFile s else cs_TLSCertFile s);
         keyFile = (if cs_TLSKeyFile s = [] then cs_KeyFile s else cs_TLSKeyFile s);
         serverName = (if cs_TLSServerName s = [] then cs_ServerName s else cs_TLSServerName s)
     in \<lparr>co_Token = cs_Token s, co_TokenFile = cs_TokenFile s, co_TLSConfig = cs_TLSConfig s,
         co_TLSCAFile = caFile, co_TLSCertFile = certFile, co_TLSKeyFile = keyFile, co_TLSServerName = serverName,
         co_TLSInsecureSkipVerify = (cs_TLSInsecureSkipVerify s \<or> cs_InsecureSkipVerify s), co_HTTPTimeout = 0,
         co_Datacenter = cs_Datacenter s, co_Namespace = cs_Namespace s\<rparr>)"

definition Normalized :: "ConsulSource \<Rightarrow> ConsulSource result" where
  "Normalized s =
    (let addresses = canonical_addresses [] (cs_Addresses s) in
     if addresses = [] then Inl (ErrNew ''consul source has no usable addresses'')
     else case ConsulSourceID (trim_space (cs_ID s)) addresses of
       Inl err \<Rightarrow> Inl err
     | Inr i \<Rightarrow> Inr (s\<lparr>cs_ID := i, cs_Addresses := addresses\<rparr>))"

text \<open>The loop of \<open>NormalizeSources\<close> with the ids and the wire ids seen so far.\<close>

fun normalize_from :: "string list \<Rightarrow> gomap \<Rightarrow> ConsulSource list \<Rightarrow> ConsulSource list result" where
  "normalize_from seen wireSeen [] = Inr []"
| "normalize_from seen wireSeen (source # sources) = (case Normalized source of
      Inl err \<Rightarrow> Inl (ErrWrap ''normalize consul source'' err)
    | Inr resolved \<Rightarrow>
       if cs_ID resolved \<in> set seen then Inl (ErrNew (''duplicate consul source ID '' @ cs_ID resolved))
       else let wireID = SanitizeWireScope (cs_ID resolved) in
         if wireID = [] then Inl (ErrNew (''consul source ID has no usable Nacos wire scope: '' @ cs_ID resolved))
         else if map_of wireSeen wireID \<noteq> None
         then Inl (ErrNew (''consul source IDs collide after Nacos wire sanitization as '' @ wireID))
         else map_sum id (\<lambda>rest. resolved # rest)
           (normalize_from (cs_ID resolved # seen) (aupd wireID (cs_ID resolved) wireSeen) sources))"

definition NormalizeSources :: "ConsulSource list \<Rightarrow> ConsulSource list result" where
  "NormalizeSources sources = (if sources = [] then Inl (ErrNew ''no consul sources configured'')
     else normalize_from [] [] sources)"

text \<open>The providers of all sources over a constructor; after an error those already
  created are shut down.  \<open>'w\<close> is what constructor and shutdown act on, and the flag
  of a provider is \<open>acceptLegacyRemote\<close>.\<close>

fun construct_from ::
  "(ConsulSource \<Rightarrow> 'w \<Rightarrow> 'p result \<times> 'w) \<Rightarrow> ('p \<Rightarrow> 'w \<Rightarrow> 'w) \<Rightarrow> bool \<Rightarrow> ('p \<times> bool) list
    \<Rightarrow> ConsulSource list \<Rightarrow> 'w \<Rightarrow> ('p \<times> bool) list result \<times> 'w" where
  "construct_from construct shutdown single acc [] w = (Inr acc, w)"
| "construct_from construct shutdown single acc (source # sources) w = (case construct source w of
      (Inl err, w) \<Rightarrow> (Inl (ErrWrap ''new consul provider for source'' err), fold (\<lambda>(p, _). shutdown p) acc w)
    | (Inr p, w) \<Rightarrow> construct_from construct shutdown single (acc @ [(p, single)]) sources w)"

definition newConsulProvidersWithConstructor ::
  "(ConsulSource \<Rightarrow> 'w \<Rightarrow> 'p result \<times> 'w) option \<Rightarrow> ('p \<Rightarrow> 'w \<Rightarrow> 'w) \<Rightarrow> ConsulSource list \<Rightarrow> 'w
    \<Rightarrow> ('p \<times> bool) list result \<times> 'w" where
  "newConsulProvidersWithConstructor construct shutdown sources w = (case construct of
      None \<Rightarrow> (Inl (ErrNew ''nil consul source provider constructor''), w)
    | Some c \<Rightarrow> (case NormalizeSources sources of
        Inl err \<Rightarrow> (Inl err, w)
      | Inr normalized \<Rightarrow> construct_from c shutdown (length normalized = 1) [] normalized w))"

section \<open>The client factory\<close>

record api_Config =
  ac_Address :: string
  ac_Token :: string
  ac_TokenFile :: string
  ac_Datacenter :: string
  ac_Namespace :: string
  ac_TLSConfig :: api_TLSConfig
  ac_HttpTimeout :: "int64 option"

record 'c ClientFactorySimple =
  cf_addrs :: "string list"
  cf_clients :: "(string \<times> 'c) list"
  cf_options :: ConsulClientOptions

definition NewClientFactoryWithOptions :: "string list \<Rightarrow> ConsulClientOptions \<Rightarrow> 'c ClientFactorySimple result" where
  "NewClientFactoryWithOptions addrs options =
    (let usableAddrs = canonical_addresses [] addrs in
     if usableAddrs = [] then Inl (ErrNew ''Consul client factory has no usable addresses'')
     else Inr \<lparr>cf_addrs = usableAddrs, cf_clients = [], cf_options = options\<rparr>)"

definition apiConfig :: "api_Config \<Rightarrow> ConsulClientOptions \<Rightarrow> string \<Rightarrow> api_Config" where
  "apiConfig DefaultConfig opt addr =
    (let tls = co_TLSConfig opt;
         tls = (if co_TLSCAFile opt \<noteq> [] then tls\<lparr>tls_CAFile := co_TLSCAFile opt\<rparr> else tls);
         tls = (if co_TLSCertFile opt \<noteq> [] then tls\<lparr>tls_CertFile := co_TLSCertFile opt\<rparr> else tls);
         tls = (if co_TLSKeyFile opt \<noteq> [] then tls\<lparr>tls_KeyFile := co_TLSKeyFile opt\<rparr> else tls);
         tls = (if co_TLSServerName opt \<noteq> [] then tls\<lparr>tls_Address := co_TLSServerName opt\<rparr> else tls);
         tls = (if co_TLSInsecureSkipVerify opt then tls\<lparr>tls_InsecureSkipVerify := True\<rparr> else tls)
     in DefaultConfig\<lparr>ac_Address := addr, ac_Token := co_Token opt, ac_TokenFile := co_TokenFile opt,
          ac_Datacenter := co_Datacenter opt, ac_Namespace := co_Namespace opt, ac_TLSConfig := tls,
          ac_HttpTimeout := (if 0 < co_HTTPTimeout opt then Some (co_HTTPTimeout opt) else ac_HttpTimeout DefaultConfig)\<rparr>)"

definition cachedClients :: "'c ClientFactorySimple \<Rightarrow> (string \<times> 'c) list" where
  "cachedClients cfs = List.map_filter (\<lambda>addr. map_option (Pair addr) (map_of (cf_clients cfs) addr)) (cf_addrs cfs)"

text \<open>The verdict on a leader probe.\<close>

definition probe_error :: "string \<Rightarrow> string result \<Rightarrow> error" where
  "probe_error addr answer = (case answer of
      Inl err \<Rightarrow> Some (ErrWrap (''check Consul leader at '' @ addr) err)
    | Inr leader \<Rightarrow> if leader = [] then Some (ErrNew (''empty leader from '' @ addr)) else None)"

text \<open>The first loop probes the cached clients and forgets those that fail.\<close>

fun probe_cached ::
  "('c \<Rightarrow> string result) \<Rightarrow> (string \<times> 'c) list \<Rightarrow> (string \<times> 'c) list \<Rightarrow> 'c option \<times> go_err list \<times> (string \<times> 'c) list" where
  "probe_cached leader [] clients = (None, [], clients)"
| "probe_cached leader ((addr, c) # cached) clients = (case probe_error addr (leader c) of
      None \<Rightarrow> (Some c, [], clients)
    | Some err \<Rightarrow> (case probe_cached leader cached (adel addr clients) of (found, failures, clients) \<Rightarrow>
        (found, err # failures, clients)))"

text \<open>The second creates clients for the addresses not tried yet.\<close>

fun probe_addrs ::
  "(api_Config \<Rightarrow> 'c result) \<Rightarrow> ('c \<Rightarrow> string result) \<Rightarrow> (string \<Rightarrow> api_Config) \<Rightarrow> string list
    \<Rightarrow> (string \<times> 'c) list \<Rightarrow> 'c option \<times> go_err list \<times> (string \<times> 'c) list" where
  "probe_addrs newClient leader config [] clients = (None, [], clients)"
| "probe_addrs newClient leader config (addr # addrs) clients = (case newClient (config addr) of
      Inl err \<Rightarrow> (case probe_addrs newClient leader config addrs clients of (found, failures, clients) \<Rightarrow>
        (found, ErrWrap (''create Consul client for '' @ addr) err # failures, clients))
    | Inr c \<Rightarrow> (case probe_error addr (leader c) of
        None \<Rightarrow> (Some c, [], aupd addr c clients)
      | Some err \<Rightarrow> (case probe_addrs newClient leader config addrs clients of (found, failures, clients) \<Rightarrow>
          (found, err # failures, clients))))"

definition ConsulClientFactory ::
  "api_Config \<Rightarrow> (api_Config \<Rightarrow> 'c result) \<Rightarrow> ('c \<Rightarrow> string result) \<Rightarrow> 'c ClientFactorySimple
    \<Rightarrow> 'c result \<times> 'c ClientFactorySimple" where
  "ConsulClientFactory DefaultConfig newClient leader cfs =
    (let cached = cachedClients cfs in
     case probe_cached leader cached (cf_clients cfs) of
       (Some c, _, clients) \<Rightarrow> (Inr c, cfs\<lparr>cf_clients := clients\<rparr>)
     | (None, failures, clients) \<Rightarrow>
        (case probe_addrs newClient leader (apiConfig DefaultConfig (cf_options cfs))
                (filter (\<lambda>addr. addr \<notin> set (map fst cached)) (cf_addrs cfs)) clients of
           (Some c, _, clients) \<Rightarrow> (Inr c, cfs\<lparr>cf_clients := clients\<rparr>)
         | (None, failures', clients) \<Rightarrow>
            (Inl (case failures @ failures' of
                [] \<Rightarrow> ErrNew ''no valid Consul client found''
              | e # _ \<Rightarrow> ErrWrap ''no valid Consul client found'' e), cfs\<lparr>cf_clients := clients\<rparr>)))"

section \<open>The watch\<close>

record consulWatchIndex =
  wi_waitIndex :: "64 word"
  wi_lastIndex :: "64 word"

text \<open>\<open>observe\<close>: the flags \<open>changed\<close> and \<open>retryImmediately\<close>; a missing answer has no
  index.\<close>

definition watch_observe :: "64 word option \<Rightarrow> consulWatchIndex \<Rightarrow> (bool \<times> bool) \<times> consulWatchIndex" where
  "watch_observe queryMeta i = (case queryMeta of
      None \<Rightarrow> ((False, False), i\<lparr>wi_waitIndex := 1\<rparr>)
    | Some lastIndex \<Rightarrow>
       if lastIndex = 0 then ((False, False), i\<lparr>wi_waitIndex := 1\<rparr>)
       else if wi_lastIndex i \<noteq> 0 \<and> lastIndex < wi_lastIndex i
       then ((True, True), \<lparr>wi_waitIndex = 0, wi_lastIndex = lastIndex\<rparr>)
       else ((wi_lastIndex i \<noteq> lastIndex, False), \<lparr>wi_waitIndex = lastIndex, wi_lastIndex = lastIndex\<rparr>))"

text \<open>The watch goroutine and the debouncing goroutine of the monitor, which share two
  channels of capacity one: the instant of a change and the signal.  \<open>ms_seen\<close> counts
  the changes the watch has observed, \<open>ms_covered\<close> how many of them the last run of
  the timestamped handlers has behind it, and \<open>ms_runs\<close> the instants given to them.\<close>

datatype watch_pc = WatchIdle | WatchChanged int64 | WatchStamped

datatype update_pc = UpdateIdle | UpdateSignalled

record monitor_state =
  ms_watch :: watch_pc
  ms_update :: update_pc
  ms_watchTimestamps :: "int64 option"
  ms_change :: bool
  ms_lastChange :: bool
  ms_firstWatchAt :: "int64 option"
  ms_seen :: nat
  ms_covered :: nat
  ms_runs :: "int64 list"

definition monitor_start :: monitor_state where
  "monitor_start = \<lparr>ms_watch = WatchIdle, ms_update = UpdateIdle, ms_watchTimestamps = None, ms_change = False,
     ms_lastChange = False, ms_firstWatchAt = None, ms_seen = 0, ms_covered = 0, ms_runs = []\<rparr>"

text \<open>What the periodic check does once the signals have been idle long enough: without
  an instant the timestamped handlers are not run.\<close>

definition updateInstanceRecordAt :: "monitor_state \<Rightarrow> monitor_state" where
  "updateInstanceRecordAt m = (case ms_firstWatchAt m of
      None \<Rightarrow> m
    | Some watchAt \<Rightarrow> m\<lparr>ms_runs := ms_runs m @ [watchAt], ms_covered := ms_seen m\<rparr>)"

definition earliest :: "int64 option \<Rightarrow> int64 option \<Rightarrow> int64 option" where
  "earliest watchAt first = (case (watchAt, first) of
      (None, _) \<Rightarrow> first
    | (Some a, None) \<Rightarrow> Some a
    | (Some a, Some b) \<Rightarrow> Some (if a < b then a else b))"

inductive monitor_step :: "monitor_state \<Rightarrow> monitor_state \<Rightarrow> bool" where
  stamp: "ms_watch m = WatchChanged at \<Longrightarrow> monitor_step m (m\<lparr>ms_watch := WatchStamped,
    ms_watchTimestamps := (case ms_watchTimestamps m of None \<Rightarrow> Some at | Some t \<Rightarrow> Some t)\<rparr>)"
| signal: "ms_watch m = WatchStamped \<Longrightarrow> monitor_step m (m\<lparr>ms_watch := WatchIdle, ms_change := True\<rparr>)"
| receive: "ms_update m = UpdateIdle \<Longrightarrow> ms_change m \<Longrightarrow>
    monitor_step m (m\<lparr>ms_update := UpdateSignalled, ms_change := False\<rparr>)"
| take_stamp: "ms_update m = UpdateSignalled \<Longrightarrow> monitor_step m (m\<lparr>ms_update := UpdateIdle, ms_lastChange := True,
    ms_firstWatchAt := earliest (ms_watchTimestamps m) (ms_firstWatchAt m), ms_watchTimestamps := None\<rparr>)"
| fire: "ms_update m = UpdateIdle \<Longrightarrow> ms_lastChange m \<Longrightarrow>
    monitor_step m ((updateInstanceRecordAt m)\<lparr>ms_lastChange := False, ms_firstWatchAt := None\<rparr>)"

inductive monitor_reach :: "monitor_state \<Rightarrow> bool" where
  start: "monitor_reach monitor_start"
| changed: "monitor_reach m \<Longrightarrow> ms_watch m = WatchIdle \<Longrightarrow>
    monitor_reach (m\<lparr>ms_watch := WatchChanged at, ms_seen := ms_seen m + 1\<rparr>)"
| internal: "monitor_reach m \<Longrightarrow> monitor_step m m' \<Longrightarrow> monitor_reach m'"

section \<open>Sources have separate scopes\<close>

lemma Normalized_Inr:
  assumes "Normalized s = Inr n"
  shows "cs_ID n \<noteq> [] \<and> SanitizeWireScope (cs_ID n) = cs_ID n \<and> cs_Addresses n \<noteq> [] \<and> distinct (cs_Addresses n)"
proof -
  from assms obtain i where i: "ConsulSourceID (trim_space (cs_ID s)) (cs_Addresses n) = Inr i"
    and n: "cs_ID n = i" "cs_Addresses n \<noteq> []" "cs_Addresses n = canonical_addresses [] (cs_Addresses s)"
    by (auto simp: Normalized_def Let_def split: if_splits sum.splits)
  from ConsulSourceID_wire_scope [OF i refl] n canonical_addresses_distinct [of "[]" "cs_Addresses s"] show ?thesis by simp
qed

lemma normalize_from_Inr:
  assumes "normalize_from seen wireSeen sources = Inr ns"
  shows "list_all2 (\<lambda>s n. Normalized s = Inr n) sources ns \<and> distinct (map cs_ID ns) \<and> set (map cs_ID ns) \<inter> set seen = {}"
  using assms
proof (induction seen wireSeen sources arbitrary: ns rule: normalize_from.induct)
  case (2 seen wireSeen source sources)
  then obtain n rest where n: "Normalized source = Inr n" "cs_ID n \<notin> set seen" "ns = n # rest"
    and rest: "normalize_from (cs_ID n # seen) (aupd (SanitizeWireScope (cs_ID n)) (cs_ID n) wireSeen) sources = Inr rest"
    by (auto simp: Let_def map_sum_def split: sum.splits if_splits)
  then have "map_of wireSeen (SanitizeWireScope (cs_ID n)) = None" "SanitizeWireScope (cs_ID n) \<noteq> []"
    using 2 by (auto simp: Let_def split: if_splits)
  from 2(1) [OF n(1,2) refl this(2)] this(1) rest have "list_all2 (\<lambda>s n. Normalized s = Inr n) sources rest
      \<and> distinct (map cs_ID rest) \<and> set (map cs_ID rest) \<inter> set (cs_ID n # seen) = {}" by simp
  then show ?case using n by auto
qed simp

lemma normalize_from_Inl:
  assumes "normalize_from seen wireSeen sources = Inl err" and "\<And>w. map_of wireSeen w \<noteq> None \<Longrightarrow> w \<in> set seen"
  shows "(\<exists>s \<in> set sources. isl (Normalized s)) \<or> \<not> distinct (map (\<lambda>s. cs_ID (projr (Normalized s))) sources)
     \<or> set (map (\<lambda>s. cs_ID (projr (Normalized s))) sources) \<inter> set seen \<noteq> {}"
  using assms
proof (induction seen wireSeen sources rule: normalize_from.induct)
  case (2 seen wireSeen source sources)
  show ?case
  proof (cases "Normalized source")
    case (Inl e)
    then show ?thesis by simp
  next
    case (Inr n)
    show ?thesis
    proof (cases "cs_ID n \<in> set seen")
      case True
      then show ?thesis using Inr by auto
    next
      case False
      have w: "SanitizeWireScope (cs_ID n) = cs_ID n" "cs_ID n \<noteq> []" using Normalized_Inr [OF Inr] by simp_all
      then have new: "map_of wireSeen (cs_ID n) = None" using 2(3) False by blast
      from 2(2) Inr False w new have e: "normalize_from (cs_ID n # seen) (aupd (cs_ID n) (cs_ID n) wireSeen) sources = Inl err"
        by (auto simp: Let_def map_sum_def split: sum.splits)
      have "(\<exists>s \<in> set sources. isl (Normalized s)) \<or> \<not> distinct (map (\<lambda>s. cs_ID (projr (Normalized s))) sources)
         \<or> set (map (\<lambda>s. cs_ID (projr (Normalized s))) sources) \<inter> set (cs_ID n # seen) \<noteq> {}"
        using 2(1) [OF Inr False refl] w new e 2(3) by (auto simp: comp_def split: if_splits)
      then show ?thesis using Inr by auto
    qed
  qed
qed simp


definition sample_source :: "string \<Rightarrow> string list \<Rightarrow> ConsulSource" where
  "sample_source i addresses = \<lparr>cs_ID = i, cs_Addresses = addresses, cs_Token = [], cs_TokenFile = [],
     cs_TLSConfig = \<lparr>tls_Address = [], tls_CAFile = [], tls_CertFile = [], tls_KeyFile = [], tls_InsecureSkipVerify = False,
       tls_CAPem = None, tls_CertPEM = None, tls_KeyPEM = None\<rparr>,
     cs_TLSCAFile = [], cs_TLSCertFile = [], cs_TLSKeyFile = [], cs_TLSServerName = [], cs_TLSInsecureSkipVerify = False,
     cs_Datacenter = [], cs_Namespace = [], cs_CAFile = [], cs_CertFile = [], cs_KeyFile = [], cs_ServerName = [],
     cs_InsecureSkipVerify = False\<rparr>"


section \<open>Failing over to a healthy endpoint\<close>

definition answers :: "('c \<Rightarrow> string result) \<Rightarrow> 'c \<Rightarrow> bool" where
  "answers leader c = (\<exists>l. leader c = Inr l \<and> l \<noteq> [])"

text \<open>Whether one call can use an address: its cached client answers or, when there is
  none, a new client does.\<close>

definition usable ::
  "api_Config \<Rightarrow> (api_Config \<Rightarrow> 'c result) \<Rightarrow> ('c \<Rightarrow> string result) \<Rightarrow> 'c ClientFactorySimple \<Rightarrow> string \<Rightarrow> bool" where
  "usable DefaultConfig newClient leader cfs addr = (case map_of (cf_clients cfs) addr of
      Some c \<Rightarrow> answers leader c
    | None \<Rightarrow> (case newClient (apiConfig DefaultConfig (cf_options cfs) addr) of Inl _ \<Rightarrow> False | Inr c \<Rightarrow> answers leader c))"

lemma probe_error_None: "probe_error addr (leader c) = None \<longleftrightarrow> answers leader c"
  by (auto simp: probe_error_def answers_def split: sum.splits)

lemma probe_cached_result:
  assumes "probe_cached leader cached clients = (found, failures, clients')"
  shows "(case found of Some c \<Rightarrow> answers leader c \<and> (\<exists>addr. (addr, c) \<in> set cached \<and> (distinct (map fst cached) \<longrightarrow> map_of clients' addr = map_of clients addr))
     | None \<Rightarrow> (\<forall>(addr, c) \<in> set cached. \<not> answers leader c) \<and> map_of clients' = (\<lambda>a. if a \<in> fst ` set cached then None else map_of clients a))"
  using assms
proof (induction leader cached clients arbitrary: found failures clients' rule: probe_cached.induct)
  case (2 leader addr c cached clients)
  show ?case
  proof (cases "probe_error addr (leader c)")
    case None
    then show ?thesis using 2(2) probe_error_None [of addr leader c] by auto
  next
    case (Some err)
    then obtain fs where r: "probe_cached leader cached (adel addr clients) = (found, fs, clients')"
      using 2(2) by (auto split: prod.splits)
    have n: "\<not> answers leader c" using Some probe_error_None [of addr leader c] by simp
    from 2(1) [OF Some r] show ?thesis using n by (force split: option.splits)
  qed
qed auto

lemma probe_addrs_result:
  assumes "probe_addrs newClient leader config addrs clients = (found, failures, clients')"
  shows "(case found of Some c \<Rightarrow> answers leader c \<and> (\<exists>addr \<in> set addrs. newClient (config addr) = Inr c \<and> map_of clients' addr = Some c)
     | None \<Rightarrow> (\<forall>addr \<in> set addrs. case newClient (config addr) of Inl _ \<Rightarrow> True | Inr c \<Rightarrow> \<not> answers leader c) \<and> clients' = clients)"
  using assms
proof (induction newClient leader config addrs clients arbitrary: found failures clients' rule: probe_addrs.induct)
  case (2 newClient leader config addr addrs clients)
  show ?case
  proof (cases "newClient (config addr)")
    case (Inl err)
    then show ?thesis using 2(1) [OF Inl] 2(3) by (force split: prod.splits option.splits)
  next
    case (Inr c)
    show ?thesis
    proof (cases "probe_error addr (leader c)")
      case None
      then show ?thesis using 2(3) Inr probe_error_None [of addr leader c] by auto
    next
      case (Some err)
      then have "\<not> answers leader c" using probe_error_None [of addr leader c] by simp
      then show ?thesis using 2(2) [OF Inr Some] 2(3) Inr Some by (force split: prod.splits option.splits)
    qed
  qed
qed simp

lemma cachedClients_set:
  "(addr, c) \<in> set (cachedClients cfs) \<longleftrightarrow> addr \<in> set (cf_addrs cfs) \<and> map_of (cf_clients cfs) addr = Some c"
  by (force simp: cachedClients_def List.map_filter_def image_iff)

lemma cachedClients_fst:
  "map fst (cachedClients cfs) = filter (\<lambda>addr. map_of (cf_clients cfs) addr \<noteq> None) (cf_addrs cfs)"
proof -
  have "map fst (List.map_filter (\<lambda>a. map_option (Pair a) (f a)) xs) = filter (\<lambda>a. f a \<noteq> None) xs" for f :: "string \<Rightarrow> 'a option" and xs
    by (induction xs) (auto simp: List.map_filter_simps split: option.splits)
  then show ?thesis by (simp add: cachedClients_def)
qed

text \<open>C22: A call of the factory succeeds exactly when some configured address is usable;
  the client it returns answered with a leader and is the cached client of its
  address afterwards, and after a failure no configured address has a client left
  in the cache.\<close>

theorem ConsulClientFactory_fails_over:
  assumes "distinct (cf_addrs cfs)"
  shows "(case ConsulClientFactory DefaultConfig newClient leader cfs of
      (Inr c, cfs') \<Rightarrow> (\<exists>addr \<in> set (cf_addrs cfs). usable DefaultConfig newClient leader cfs addr
         \<and> map_of (cf_clients cfs') addr = Some c) \<and> answers leader c
    | (Inl _, cfs') \<Rightarrow> (\<forall>addr \<in> set (cf_addrs cfs). \<not> usable DefaultConfig newClient leader cfs addr
         \<and> map_of (cf_clients cfs') addr = None))"
proof -
  let ?config = "apiConfig DefaultConfig (cf_options cfs)"
  let ?rest = "filter (\<lambda>addr. addr \<notin> set (map fst (cachedClients cfs))) (cf_addrs cfs)"
  obtain found fs clients where c: "probe_cached leader (cachedClients cfs) (cf_clients cfs) = (found, fs, clients)"
    by (metis prod.exhaust)
  have d: "distinct (map fst (cachedClients cfs))" using assms by (simp add: cachedClients_fst)
  show ?thesis
  proof (cases found)
    case (Some x)
    from probe_cached_result [OF c] Some d obtain addr where "answers leader x" "(addr, x) \<in> set (cachedClients cfs)"
      "map_of clients addr = map_of (cf_clients cfs) addr" by auto
    then show ?thesis using c Some
      by (auto simp: ConsulClientFactory_def Let_def cachedClients_set usable_def intro!: bexI [of _ addr])
  next
    case None
    obtain found' fs' clients' where a: "probe_addrs newClient leader ?config ?rest clients = (found', fs', clients')"
      by (metis prod.exhaust)
    have un: "\<not> answers leader y" if "addr \<in> set (cf_addrs cfs)" "map_of (cf_clients cfs) addr = Some y" for addr y
    proof -
      have "(addr, y) \<in> set (cachedClients cfs)" using that by (simp add: cachedClients_set)
      then show ?thesis using probe_cached_result [OF c] None by auto
    qed
    have rest: "addr \<in> set ?rest \<longleftrightarrow> addr \<in> set (cf_addrs cfs) \<and> map_of (cf_clients cfs) addr = None" for addr
      by (auto simp add: cachedClients_fst simp del: set_map)
    show ?thesis
    proof (cases found')
      case (Some x)
      from probe_addrs_result [OF a] Some obtain addr where x: "answers leader x" "addr \<in> set ?rest"
        "newClient (?config addr) = Inr x" "map_of clients' addr = Some x" by auto
      then show ?thesis using a c None Some rest
        by (auto simp: ConsulClientFactory_def Let_def usable_def intro!: bexI [of _ addr])
    next
      case no: None
      have gone: "map_of clients' addr = None" if "addr \<in> set (cf_addrs cfs)" for addr
        using probe_cached_result [OF c] probe_addrs_result [OF a] None no that cachedClients_set [of addr _ cfs]
        by (cases "map_of (cf_clients cfs) addr") force+
      have "\<not> usable DefaultConfig newClient leader cfs addr" if "addr \<in> set (cf_addrs cfs)" for addr
        using probe_addrs_result [OF a] no un rest [of addr] that by (auto simp: usable_def split: option.splits sum.splits)
      then show ?thesis using a c None no gone by (auto simp: ConsulClientFactory_def Let_def)
    qed
  qed
qed

definition sample_config :: api_Config where
  "sample_config = \<lparr>ac_Address = [], ac_Token = [], ac_TokenFile = [], ac_Datacenter = [], ac_Namespace = [],
     ac_TLSConfig = cs_TLSConfig (sample_source [] []), ac_HttpTimeout = None\<rparr>"

theorem ConsulClientFactory_fails_over_witness:
  "case ConsulClientFactory sample_config (\<lambda>c. Inr (ac_Address c)) (\<lambda>c. if c = ''b:2'' then Inr ''b:2'' else Inr [])
      \<lparr>cf_addrs = [''a:1'', ''b:2''], cf_clients = [(''a:1'', ''a:1'')], cf_options = clientOptions (sample_source [] [])\<rparr> of
     (Inr c, cfs') \<Rightarrow> answers (\<lambda>c. if c = ''b:2'' then Inr ''b:2'' else Inr []) c | (Inl _, _) \<Rightarrow> False"
proof -
  let ?f = "\<lparr>cf_addrs = [''a:1'', ''b:2''], cf_clients = [(''a:1'', ''a:1'')], cf_options = clientOptions (sample_source [] [])\<rparr>"
  let ?l = "\<lambda>c. if c = ''b:2'' then Inr ''b:2'' else Inr []"
  have "distinct (cf_addrs ?f)" by simp
  moreover have "usable sample_config (\<lambda>c. Inr (ac_Address c)) ?l ?f ''b:2''" by (simp add: usable_def answers_def apiConfig_def Let_def)
  ultimately show ?thesis
    using ConsulClientFactory_fails_over [of ?f sample_config "\<lambda>c. Inr (ac_Address c)" ?l] by (auto split: prod.splits sum.splits)
qed

section \<open>The watch loses no change\<close>

text \<open>The last index that Consul answered with.\<close>

definition last_valid :: "64 word option list \<Rightarrow> 64 word" where
  "last_valid qs = (let valid = filter (\<lambda>x. x \<noteq> 0) (drop_none qs) in if valid = [] then 0 else last valid)"

fun observes :: "64 word option list \<Rightarrow> consulWatchIndex \<Rightarrow> (bool \<times> bool) list \<times> consulWatchIndex" where
  "observes [] i = ([], i)"
| "observes (q # qs) i = (case watch_observe q i of (f, i) \<Rightarrow> (case observes qs i of (fs, i) \<Rightarrow> (f # fs, i)))"

lemma observes_append:
  "observes (qs @ rs) i = (case observes qs i of (fs, i) \<Rightarrow> (case observes rs i of (gs, i) \<Rightarrow> (fs @ gs, i)))"
  by (induction qs arbitrary: i) (auto split: prod.splits)

lemma last_valid_snoc: "last_valid (qs @ [q]) = (if q = None \<or> q = Some 0 then last_valid qs else the q)"
  by (cases q) (auto simp: last_valid_def Let_def)

lemma wi_lastIndex_observes: "wi_lastIndex (snd (observes qs \<lparr>wi_waitIndex = 0, wi_lastIndex = 0\<rparr>)) = last_valid qs"
proof (induction qs rule: rev_induct)
  case (snoc q qs)
  then show ?case
    by (auto simp: observes_append last_valid_snoc watch_observe_def split: prod.splits option.splits if_splits)
qed (simp add: last_valid_def)

text \<open>C24: Over any sequence of answers, the watch reports a change exactly at the answers
  whose index is valid and differs from the last valid one, going back included, and
  asks again at once exactly when the index went back.\<close>

theorem watch_reports_every_index_change:
  "fst (observes qs \<lparr>wi_waitIndex = 0, wi_lastIndex = 0\<rparr>) = map (\<lambda>n. (case qs ! n of
      None \<Rightarrow> (False, False)
    | Some x \<Rightarrow> (x \<noteq> 0 \<and> x \<noteq> last_valid (take n qs), x \<noteq> 0 \<and> x < last_valid (take n qs)))) [0..<length qs]"
proof (induction qs rule: rev_induct)
  case (snoc q qs)
  let ?i = "\<lparr>wi_waitIndex = 0, wi_lastIndex = 0\<rparr>"
  have "fst (watch_observe q (snd (observes qs ?i))) = (case q of None \<Rightarrow> (False, False)
      | Some x \<Rightarrow> (x \<noteq> 0 \<and> x \<noteq> last_valid qs, x \<noteq> 0 \<and> x < last_valid qs))"
    using wi_lastIndex_observes [of qs] by (auto simp: watch_observe_def split: option.splits)
  then show ?case using snoc by (auto simp: observes_append nth_append split: prod.splits option.splits)
qed simp

definition pending :: "monitor_state \<Rightarrow> bool" where
  "pending m \<longleftrightarrow> (\<exists>at. ms_watch m = WatchChanged at) \<or> ms_watchTimestamps m \<noteq> None \<or> ms_firstWatchAt m \<noteq> None"

definition monitor_inv :: "monitor_state \<Rightarrow> bool" where
  "monitor_inv m \<longleftrightarrow> ms_covered m \<le> ms_seen m \<and> (ms_covered m = ms_seen m \<or> pending m)
     \<and> (ms_watchTimestamps m \<noteq> None \<longrightarrow> ms_watch m = WatchStamped \<or> ms_change m \<or> ms_update m = UpdateSignalled)
     \<and> (ms_firstWatchAt m \<noteq> None \<longrightarrow> ms_lastChange m)"

lemma monitor_inv_step: "monitor_step m m' \<Longrightarrow> monitor_inv m \<Longrightarrow> monitor_inv m'"
  by (induction rule: monitor_step.induct)
    (auto simp: monitor_inv_def pending_def updateInstanceRecordAt_def earliest_def split: option.splits)

lemma monitor_inv_reach: "monitor_reach m \<Longrightarrow> monitor_inv m"
proof (induction rule: monitor_reach.induct)
  case start
  then show ?case by (simp add: monitor_inv_def monitor_start_def)
next
  case (changed m at)
  then show ?case by (auto simp: monitor_inv_def pending_def)
next
  case (internal m m')
  then show ?case using monitor_inv_step by blast
qed

text \<open>Every internal step uses up some of the work that is left.\<close>

definition work_left :: "monitor_state \<Rightarrow> nat" where
  "work_left m = (case ms_watch m of WatchIdle \<Rightarrow> 0 | WatchChanged _ \<Rightarrow> 6 | WatchStamped \<Rightarrow> 5)
     + (if ms_change m then 4 else 0) + (case ms_update m of UpdateIdle \<Rightarrow> 0 | UpdateSignalled \<Rightarrow> 3)
     + (if ms_lastChange m then 1 else 0)"

lemma work_left_step: "monitor_step m m' \<Longrightarrow> work_left m' < work_left m"
  by (induction rule: monitor_step.induct) (auto simp: work_left_def updateInstanceRecordAt_def split: option.splits)

lemma work_left_enabled: "work_left m \<noteq> 0 \<Longrightarrow> \<exists>m'. monitor_step m m'"
  by (cases "ms_watch m"; cases "ms_update m"; cases "ms_change m")
    (auto simp: work_left_def intro: monitor_step.intros split: if_splits)

lemma work_left_done: "work_left m = 0 \<Longrightarrow> monitor_inv m \<Longrightarrow> ms_covered m = ms_seen m"
  by (auto simp: work_left_def monitor_inv_def pending_def split: watch_pc.splits update_pc.splits if_splits)



end
