(* ===== verification/Consul_Convert.thy ===== *)
theory Consul_Convert
  imports Canonical_Payload K8s_Convert "HOL-Library.Word"
begin

text \<open>
  The conversion of a Consul service entry into an instance,
  src/pkg/providers/consul/convertion.go, function by function.

  The entry is a value of the Consul API with the fields the code reads; its maps
  are association lists, a nil map being empty.  A result \<^term>\<open>None\<close> is a nil
  dereference.  The name of a port without one is printed by \<open>fmt.Sprintf\<close> with the
  protocol as part of the format: \<open>sprintf\<close> is that function on a format which has
  further verbs.
\<close>

section \<open>Service entries\<close>

record api_Node =
  nd_ID :: string
  nd_Node :: string
  nd_Address :: string

record api_AgentService =
  as_ID :: string
  as_Meta :: gomap
  as_ModifyIndex :: "64 word"

record api_HealthCheck =
  hc_CheckID :: string
  hc_Status :: string

record ServiceEntry =
  se_Node :: "api_Node option"
  se_Service :: "api_AgentService option"
  se_Checks :: "api_HealthCheck option list"

definition metaPorts :: string where "metaPorts = ''ports''"
definition metaEnvType :: string where "metaEnvType = ''envType''"
definition metaEnvGroup :: string where "metaEnvGroup = ''envGroup''"
definition metaAppcode :: string where "metaAppcode = ''appCode''"
definition metaVersion :: string where "metaVersion = ''version''"
definition metaInstanceId :: string where "metaInstanceId = ''instanceId''"
definition metaNamespace :: string where "metaNamespace = ''namespace''"
definition ConsulHealthCheckPassing :: string where "ConsulHealthCheckPassing = ''passing''"
definition EnvDev :: string where "EnvDev = ''dev''"

lemmas meta_defs = metaPorts_def metaEnvType_def metaEnvGroup_def metaAppcode_def metaVersion_def
  metaInstanceId_def metaNamespace_def ConsulHealthCheckPassing_def EnvDev_def

section \<open>Fields\<close>

text \<open>A port of the meta data: the fields of \<open>PortInfo\<close>, which is embedded, and the scheme.\<close>

definition set_consul_port_field :: "string \<Rightarrow> json \<Rightarrow> port_info \<times> string \<Rightarrow> (port_info \<times> string) option" where
  "set_consul_port_field k v ps = (case ps of (p, scheme) \<Rightarrow>
     if field_is ''scheme'' k then set_string (\<lambda>s. (p, s)) ps v
     else map_option (\<lambda>p. (p, scheme)) (set_port_field k v p))"

fun decode_consul_ports :: "json list \<Rightarrow> (port_info \<times> string) option list option" where
  "decode_consul_ports [] = Some []"
| "decode_consul_ports (v # vs) = (case (case v of
        JNull \<Rightarrow> Some None
      | JObj ms \<Rightarrow> map_option Some (fold_fields set_consul_port_field ms (zero_port, []))
      | _ \<Rightarrow> None) of
      None \<Rightarrow> None
    | Some p \<Rightarrow> map_option (\<lambda>ps. p # ps) (decode_consul_ports vs))"

definition unmarshal_ports :: "string \<Rightarrow> (port_info \<times> string) option list option" where
  "unmarshal_ports text' = (case parse_json text' of
      Some JNull \<Rightarrow> Some []
    | Some (JArr vs) \<Rightarrow> decode_consul_ports vs
    | _ \<Rightarrow> None)"

definition port_name :: "(string \<Rightarrow> nat \<Rightarrow> string) \<Rightarrow> string \<Rightarrow> nat \<Rightarrow> string" where
  "port_name sprintf protocol idx =
    (if CHR ''%'' \<in> set protocol then sprintf (protocol @ ''%d'') idx else protocol @ nat_digits idx)"

fun port_infos :: "(string \<Rightarrow> nat \<Rightarrow> string) \<Rightarrow> nat \<Rightarrow> (port_info \<times> string) option list \<Rightarrow> port_info option list option" where
  "port_infos sprintf idx [] = Some []"
| "port_infos sprintf idx (None # ps) = None"
| "port_infos sprintf idx (Some (p, scheme) # ps) =
    (let protocol = (if Protocol p = [] then scheme else Protocol p);
         portName = (if PName p = [] then port_name sprintf protocol idx else PName p)
     in map_option (\<lambda>rest. Some \<lparr>PName = portName, Protocol = protocol, Port = Port p, ServicePort = Port p\<rparr> # rest)
          (port_infos sprintf (Suc idx) ps))"

definition convertPort :: "(string \<Rightarrow> nat \<Rightarrow> string) \<Rightarrow> api_AgentService \<Rightarrow> port_info option list result option" where
  "convertPort sprintf svc =
    (let ports = go_get (as_Meta svc) metaPorts in
     if ports = [] then Some (Inl (ErrNew ''convert port with none params''))
     else case unmarshal_ports ports of
       None \<Rightarrow> Some (Inl (ErrWrap ''unmarshal json'' (ErrNew ''invalid ports'')))
     | Some ps \<Rightarrow> map_option Inr (port_infos sprintf 0 ps))"

definition convertAppcode :: "api_AgentService \<Rightarrow> string result" where
  "convertAppcode svc = (if go_get (as_Meta svc) metaAppcode = [] then Inl (ErrNew ''convert appcode with invalid endpoint'')
     else Inr (go_get (as_Meta svc) metaAppcode))"

definition convertVersion :: "api_AgentService \<Rightarrow> string result" where
  "convertVersion svc = (if go_get (as_Meta svc) metaVersion = [] then Inl (ErrNew ''convert version with invalid params'')
     else Inr (go_get (as_Meta svc) metaVersion))"

text \<open>The scan for a passing check of the service; a nil check before it is dereferenced.\<close>

fun passing_check :: "string \<Rightarrow> string \<Rightarrow> api_HealthCheck option list \<Rightarrow> bool option" where
  "passing_check serviceCheckId legacy [] = Some False"
| "passing_check serviceCheckId legacy (None # cks) = None"
| "passing_check serviceCheckId legacy (Some ck # cks) =
    (if (hc_CheckID ck = serviceCheckId \<or> hc_CheckID ck = legacy) \<and> hc_Status ck = ConsulHealthCheckPassing
     then Some True else passing_check serviceCheckId legacy cks)"

definition service_passing :: "api_AgentService \<Rightarrow> string \<Rightarrow> api_HealthCheck option list \<Rightarrow> bool option" where
  "service_passing svc appcode checks =
     passing_check (''service:'' @ (if as_ID svc \<noteq> [] then as_ID svc else appcode)) (''service:'' @ appcode) checks"

definition convertState :: "api_AgentService \<Rightarrow> api_HealthCheck option list \<Rightarrow> string option" where
  "convertState svc checks =
    (if checks = [] then Some InstanceStateProbing
     else case convertAppcode svc of
       Inl _ \<Rightarrow> Some InstanceStateUnknown
     | Inr appcode \<Rightarrow> map_option (\<lambda>ok. if ok then InstanceStateRunning else InstanceStateProbing) (service_passing svc appcode checks))"

definition convertSatus :: "api_AgentService \<Rightarrow> api_HealthCheck option list \<Rightarrow> int32 option" where
  "convertSatus svc checks =
    (if checks = [] then Some InstanceStatusUnhealthy
     else case convertAppcode svc of
       Inl _ \<Rightarrow> Some InstanceStatusUnhealthy
     | Inr appcode \<Rightarrow> map_option (\<lambda>ok. if ok then InstanceStatusOnline else InstanceStatusUnhealthy) (service_passing svc appcode checks))"

definition convertLabels :: "api_AgentService \<Rightarrow> gomap" where
  "convertLabels svc =
    (let l0 = as_Meta svc;
         l1 = (case map_of l0 SpringApplicationName of Some san \<Rightarrow> aupd LabelEnvSan san l0 | None \<Rightarrow> l0);
         l2 = aupd LabelAosNamespace [] l1;
         l3 = (case map_of l2 metaNamespace of Some ns \<Rightarrow> aupd LabelAosNamespace ns l2 | None \<Rightarrow> l2);
         l4 = aupd LabelAosApp [] l3;
         l5 = (case map_of l4 metaAppcode of Some lapp \<Rightarrow> aupd LabelAosApp lapp l4 | None \<Rightarrow> l4)
     in aupd LabelAosDrHost (go_get l5 LabelAosApp @ ''.'' @ go_get l5 LabelAosNamespace) l5)"

definition consul_node_id :: "api_Node option \<Rightarrow> string" where
  "consul_node_id node = (case node of
      None \<Rightarrow> []
    | Some n \<Rightarrow> if nd_ID n \<noteq> [] then nd_ID n else if nd_Node n \<noteq> [] then nd_Node n else nd_Address n)"

definition consulSourceKey :: "string \<Rightarrow> ServiceEntry \<Rightarrow> string \<Rightarrow> string" where
  "consulSourceKey sourceCluster endpoint instanceID = (case se_Service endpoint of
      None \<Rightarrow> []
    | Some svc \<Rightarrow>
       (let serviceID = (if as_ID svc = [] then instanceID else as_ID svc);
            nodeID = consul_node_id (se_Node endpoint)
        in sourceCluster @ ''/'' @ join ''/'' ((if nodeID \<noteq> [] then [nodeID] else []) @ [serviceID])))"

definition convertInstanceForSource ::
  "(string \<Rightarrow> nat \<Rightarrow> string) \<Rightarrow> ServiceEntry option \<Rightarrow> string \<Rightarrow> inst result option" where
  "convertInstanceForSource sprintf endpoint sourceCluster = (case endpoint of
      None \<Rightarrow> Some (Inl (ErrNew ''nil consul service endpoint''))
    | Some ep \<Rightarrow> (case se_Service ep of
        None \<Rightarrow> None
      | Some svc \<Rightarrow> (case convertPort sprintf svc of
          None \<Rightarrow> None
        | Some (Inl err) \<Rightarrow> Some (Inl (ErrWrap ''convert instance'' err))
        | Some (Inr ports) \<Rightarrow>
           (let envType = go_get (as_Meta svc) metaEnvType; envGroup = go_get (as_Meta svc) metaEnvGroup in
            case convertAppcode svc of
              Inl err \<Rightarrow> Some (Inl (ErrWrap ''convert instance'' err))
            | Inr appcode \<Rightarrow> (case convertVersion svc of
                Inl err \<Rightarrow> Some (Inl (ErrWrap ''convert instance'' err))
              | Inr version \<Rightarrow> (case convertState svc (se_Checks ep) of
                  None \<Rightarrow> None
                | Some state \<Rightarrow> (case convertSatus svc (se_Checks ep) of
                    None \<Rightarrow> None
                  | Some status \<Rightarrow> (case se_Node ep of
                      None \<Rightarrow> None
                    | Some node \<Rightarrow>
                       (let instanceId = go_get (as_Meta svc) metaInstanceId in
                        Some (Inr (zero_inst\<lparr>SourceCluster := sourceCluster, InstanceId := instanceId, Ports := ports,
                          Ip := nd_Address node, EnvCode := envType @ ''#'' @ envGroup, EnvType := envType, EnvGroup := envGroup,
                          Version := version, Enabled := True, State := state, AppCode := appcode, Provider := ''ecs'',
                          Label := convertLabels svc, Hostname := nd_Node node,
                          Idc := (if envType = EnvDev then ''office'' else ''mix''),
                          Reversion := sint (as_ModifyIndex svc), Status := status,
                          SourceKey := (if sourceCluster \<noteq> [] then consulSourceKey sourceCluster ep instanceId else [])\<rparr>)))))))))))"

section \<open>What is converted\<close>

lemma convert_Some:
  assumes "convertInstanceForSource sprintf endpoint src = Some (Inr ins)"
  obtains ep svc node ports ok where "endpoint = Some ep" "se_Service ep = Some svc" "se_Node ep = Some node"
    "convertPort sprintf svc = Some (Inr ports)" "Ports ins = ports"
    "AppCode ins = go_get (as_Meta svc) metaAppcode" "AppCode ins \<noteq> []" "Version ins = go_get (as_Meta svc) metaVersion"
    "Version ins \<noteq> []" "EnvType ins = go_get (as_Meta svc) metaEnvType" "Ip ins = nd_Address node"
    "Reversion ins = sint (as_ModifyIndex svc)" "SourceCluster ins = src" "Provider ins = ''ecs''"
    "SourceKey ins = (if src \<noteq> [] then consulSourceKey src ep (InstanceId ins) else [])"
    "ok \<longleftrightarrow> se_Checks ep \<noteq> [] \<and> service_passing svc (AppCode ins) (se_Checks ep) = Some True"
    "Status ins = (if ok then InstanceStatusOnline else InstanceStatusUnhealthy)"
    "State ins = (if ok then InstanceStateRunning else InstanceStateProbing)"
proof -
  obtain ep svc where ep: "endpoint = Some ep" "se_Service ep = Some svc"
    using assms by (auto simp: convertInstanceForSource_def split: option.splits)
  have app: "go_get (as_Meta svc) metaAppcode \<noteq> []" "convertAppcode svc = Inr (go_get (as_Meta svc) metaAppcode)"
    using assms ep by (auto simp: convertInstanceForSource_def convertAppcode_def Let_def split: option.splits sum.splits if_splits)
  define p where "p = (if se_Checks ep = [] then Some False else service_passing svc (go_get (as_Meta svc) metaAppcode) (se_Checks ep))"
  have st: "convertState svc (se_Checks ep) = map_option (\<lambda>ok. if ok then InstanceStateRunning else InstanceStateProbing) p"
    "convertSatus svc (se_Checks ep) = map_option (\<lambda>ok. if ok then InstanceStatusOnline else InstanceStatusUnhealthy) p"
    using app by (simp_all add: convertState_def convertSatus_def p_def)
  obtain ports node ok where o: "convertPort sprintf svc = Some (Inr ports)" "se_Node ep = Some node" "p = Some ok"
    using assms ep app st by (auto simp: convertInstanceForSource_def Let_def split: option.splits sum.splits)
  have v: "convertVersion svc = Inr (go_get (as_Meta svc) metaVersion)" "go_get (as_Meta svc) metaVersion \<noteq> []"
    using assms ep app o st by (auto simp: convertInstanceForSource_def convertVersion_def Let_def split: if_splits)
  have "ok \<longleftrightarrow> se_Checks ep \<noteq> [] \<and> service_passing svc (go_get (as_Meta svc) metaAppcode) (se_Checks ep) = Some True"
    using o(3) by (auto simp: p_def split: if_splits)
  moreover have "ins = zero_inst\<lparr>SourceCluster := src, InstanceId := go_get (as_Meta svc) metaInstanceId, Ports := ports,
      Ip := nd_Address node, EnvCode := go_get (as_Meta svc) metaEnvType @ ''#'' @ go_get (as_Meta svc) metaEnvGroup,
      EnvType := go_get (as_Meta svc) metaEnvType, EnvGroup := go_get (as_Meta svc) metaEnvGroup,
      Version := go_get (as_Meta svc) metaVersion, Enabled := True,
      State := if ok then InstanceStateRunning else InstanceStateProbing, AppCode := go_get (as_Meta svc) metaAppcode,
      Provider := ''ecs'', Label := convertLabels svc, Hostname := nd_Node node,
      Idc := (if go_get (as_Meta svc) metaEnvType = EnvDev then ''office'' else ''mix''),
      Reversion := sint (as_ModifyIndex svc), Status := if ok then InstanceStatusOnline else InstanceStatusUnhealthy,
      SourceKey := (if src \<noteq> [] then consulSourceKey src ep (go_get (as_Meta svc) metaInstanceId) else [])\<rparr>"
    using assms ep app o st v by (simp add: convertInstanceForSource_def Let_def)
  ultimately show ?thesis using that [of ep svc node ports ok] ep o(1,2) app v by simp
qed

text \<open>The service id that goes into the source key.\<close>

definition consul_service_id :: "ServiceEntry \<Rightarrow> string" where
  "consul_service_id ep = (case se_Service ep of
      None \<Rightarrow> []
    | Some svc \<Rightarrow> if as_ID svc = [] then go_get (as_Meta svc) metaInstanceId else as_ID svc)"

lemma slash_prefix_unique:
  assumes "a @ CHR ''/'' # b = c @ CHR ''/'' # d" and "CHR ''/'' \<notin> set a" and "CHR ''/'' \<notin> set c"
  shows "a = c \<and> b = d"
proof -
  have tw: "takeWhile (\<lambda>x. x \<noteq> CHR ''/'') (s @ CHR ''/'' # t) = s" if "CHR ''/'' \<notin> set s" for s t :: string
    using that by (subst takeWhile_append2) auto
  have "a = c" using arg_cong [OF assms(1), of "takeWhile (\<lambda>x. x \<noteq> CHR ''/'')"] tw assms(2,3) by simp
  then show ?thesis using assms(1) by simp
qed

lemma identity_of_entry:
  assumes "convertInstanceForSource sprintf (Some ep) src = Some (Inr ins)" and "src \<noteq> []" and "consul_node_id (se_Node ep) \<noteq> []"
  shows "IdentityKey ins = src @ CHR ''/'' # consul_node_id (se_Node ep) @ CHR ''/'' # consul_service_id ep"
proof -
  from assms(1) have "InstanceId ins = go_get (as_Meta (the (se_Service ep))) metaInstanceId"
    by (auto simp: convertInstanceForSource_def Let_def split: option.splits sum.splits)
  with assms show ?thesis
    by (auto elim!: convert_Some simp: IdentityKey_def consulSourceKey_def consul_service_id_def Let_def)
qed

text \<open>C20: Entries of different Consul sources, of different nodes or with different service
  ids never share an identity, and the same service on the same node of the same
  source keeps its identity, as long as node ids have no slash: the identity keys are
  equal exactly when source, node and service id are.\<close>

theorem consul_identity_separates:
  assumes "convertInstanceForSource sprintf (Some ep1) src1 = Some (Inr ins1)"
    and "convertInstanceForSource sprintf (Some ep2) src2 = Some (Inr ins2)"
    and "src1 \<noteq> []" "src2 \<noteq> []" "list_all wire_char src1" "list_all wire_char src2"
    and "consul_node_id (se_Node ep1) \<noteq> []" "consul_node_id (se_Node ep2) \<noteq> []"
    and "CHR ''/'' \<notin> set (consul_node_id (se_Node ep1))" "CHR ''/'' \<notin> set (consul_node_id (se_Node ep2))"
  shows "IdentityKey ins1 = IdentityKey ins2 \<longleftrightarrow> src1 = src2
     \<and> consul_node_id (se_Node ep1) = consul_node_id (se_Node ep2) \<and> consul_service_id ep1 = consul_service_id ep2"
proof -
  have "\<not> wire_char (CHR ''/'')" by (simp add: wire_char_def)
  then have "CHR ''/'' \<notin> set src1" "CHR ''/'' \<notin> set src2" using assms(5,6) by (auto simp: list_all_iff)
  then show ?thesis
    unfolding identity_of_entry [OF assms(1,3,7)] identity_of_entry [OF assms(2,4,8)]
    by (metis assms(9,10) slash_prefix_unique)
qed

definition sample_entry_of :: "string \<Rightarrow> string \<Rightarrow> ServiceEntry" where
  "sample_entry_of node sid = \<lparr>se_Node = Some \<lparr>nd_ID = node, nd_Node = node, nd_Address = ''10.0.0.7''\<rparr>,
     se_Service = Some \<lparr>as_ID = sid, as_Meta = [(''ports'', ''[{\"port\":80}]''), (''appCode'', ''web''),
       (''version'', ''1''), (''envType'', ''dev'')], as_ModifyIndex = 7\<rparr>,
     se_Checks = [Some \<lparr>hc_CheckID = ''service:'' @ sid, hc_Status = ''passing''\<rparr>]\<rparr>"

lemma sample_entry_converts:
  "\<exists>ins. convertInstanceForSource (\<lambda>f n. f) (Some (sample_entry_of ''n1'' ''s1'')) ''dc1'' = Some (Inr ins)"
  "\<exists>ins. convertInstanceForSource (\<lambda>f n. f) (Some (sample_entry_of ''n2'' ''s1'')) ''dc1'' = Some (Inr ins)"
proof -
  have "(case convertInstanceForSource (\<lambda>f n. f) (Some (sample_entry_of ''n1'' ''s1'')) ''dc1'' of Some (Inr _) \<Rightarrow> True | _ \<Rightarrow> False)"
    by code_simp
  then show "\<exists>ins. convertInstanceForSource (\<lambda>f n. f) (Some (sample_entry_of ''n1'' ''s1'')) ''dc1'' = Some (Inr ins)"
    by (auto split: option.splits sum.splits)
  have "(case convertInstanceForSource (\<lambda>f n. f) (Some (sample_entry_of ''n2'' ''s1'')) ''dc1'' of Some (Inr _) \<Rightarrow> True | _ \<Rightarrow> False)"
    by code_simp
  then show "\<exists>ins. convertInstanceForSource (\<lambda>f n. f) (Some (sample_entry_of ''n2'' ''s1'')) ''dc1'' = Some (Inr ins)"
    by (auto split: option.splits sum.splits)
qed

theorem consul_identity_separates_witness:
  "\<exists>ins1 ins2. convertInstanceForSource (\<lambda>f n. f) (Some (sample_entry_of ''n1'' ''s1'')) ''dc1'' = Some (Inr ins1)
     \<and> convertInstanceForSource (\<lambda>f n. f) (Some (sample_entry_of ''n2'' ''s1'')) ''dc1'' = Some (Inr ins2)
     \<and> IdentityKey ins1 \<noteq> IdentityKey ins2"
proof -
  obtain ins1 ins2 where i: "convertInstanceForSource (\<lambda>f n. f) (Some (sample_entry_of ''n1'' ''s1'')) ''dc1'' = Some (Inr ins1)"
    "convertInstanceForSource (\<lambda>f n. f) (Some (sample_entry_of ''n2'' ''s1'')) ''dc1'' = Some (Inr ins2)"
    using sample_entry_converts by blast
  from consul_identity_separates [OF i] have "IdentityKey ins1 \<noteq> IdentityKey ins2"
    by (simp add: sample_entry_of_def consul_node_id_def wire_char_def)
  with i show ?thesis by blast
qed



end
