(* ===== verification/Spec2Isabelle.thy ===== *)
theory Spec2Isabelle
  imports K8s_Provider Nacos_Sink Consul_Source Consul_Convert
begin

text \<open>
  Verification of spotter (src/), a service that aggregates Kubernetes pods and
  Consul catalog entries into one provider-independent instance model and publishes
  the instances to a registry, Nacos.

  \<^bold>\<open>Parts and theories.\<close>  A \<^emph>\<open>provider\<close> watches a source, keeps a cache of instances and hands
  events to the \<^emph>\<open>worker\<close>; the worker pushes them through a fan-out to the \<^emph>\<open>sinks\<close>, each
  behind an ordering gate, and queues what fails; a sink writes to its registry.

  \<^item> \<open>Prelude\<close>: Go strings, maps as association lists (nil and empty coincide), slices of
    pointers as lists of options, float32 comparison, and the lemma collections.
  \<^item> \<open>Go_Errors\<close> (internal/ports/errors.go and the errors package): error values as trees,
    \<open>errors.Is\<close>, \<open>errors.As\<close> and the permanent or transient classification.
  \<^item> \<open>Sha256\<close>, \<open>Float32\<close>, \<open>Json\<close>: the parts of the Go library that the code calls, written out.
  \<^item> \<open>Instance_Model\<close> (internal/domain/instance: model.go, identity.go, observation.go,
    rules.go): the \<open>Instance\<close> struct, identity keys, wire scopes, three-way comparison.
  \<^item> \<open>Canonical_Payload\<close> (metadata.go): the canonical JSON payload, its compressed form and the
    reconcile comparison; gzip is a parameter.
  \<^item> \<open>Sink_Port\<close> (internal/ports/ports.go), \<open>Ordered_Sink\<close>, \<open>Fanout\<close> (pkg/worker/fanout.go): the
    sink interface as a locale, the ordering gate with its ledger of revisions and
    tombstones, and the fan-out over named sinks.
  \<^item> \<open>Retry_Queue\<close> (pkg/worker/unsynced_service.go): the per-sink queue of failed pushes, its
    retry cycle as functions and as a step relation with concurrent additions.
  \<^item> \<open>Event_Worker\<close> (pkg/worker/worker.go, types.go): the handlers of incremental and full
    events.
  \<^item> \<open>Provider_Common\<close> (pkg/providers/common.go, identity.go, cache.go), \<open>Overflow_Queue\<close>
    (overflow.go): indexes, filters, the instance cache over an interface for
    google/btree, and the requeue behind a saturated pool as a step relation.
  \<^item> \<open>K8s_Robot\<close> (pkg/k8srobot/k8srobot.go), \<open>K8s_Convert\<close> (pkg/providers/k8s/conversion.go),
    \<open>K8s_Provider\<close> (pkg/providers/k8s/k8s.go): the coalescing event queue, the conversion of
    pods, and the provider with its cache, comparison and full push.
  \<^item> \<open>Consul_Source\<close> (pkg/providers/consul: source.go, client_factory.go, monitor.go),
    \<open>Consul_Convert\<close> (convertion.go): source configuration, endpoint failover, the blocking
    watch, and the conversion of service entries.
  \<^item> \<open>Nacos_Wire\<close>, \<open>Nacos_Sink\<close> (pkg/nacos/nacos.go, batch.go): composite ids, metadata and its
    reading back, batches, and the sink with ownership ledger and prune.

  \<^bold>\<open>Conventions.\<close>  State is an explicit record that operations return updated.  A panic is the
  result \<^term>\<open>None\<close>, an error a value of \<open>go_err\<close>; error texts are kept as far as they
  identify the branch.  The order of a map iteration and the schedule of goroutines
  are parameters.  Where goroutines interleave within an operation there is a step
  relation (\<open>Retry_Queue\<close>, \<open>K8s_Robot\<close>, \<open>Overflow_Queue\<close>, \<open>K8s_Provider\<close>, the monitor of
  \<open>Consul_Source\<close>, the wire claims of \<open>Nacos_Sink\<close>); otherwise a lock makes the operation
  atomic.  Counters are words of their width; int32 and int64 fields that are only
  compared are integers, with \<open>in_bits\<close> as the typing condition where it matters.
  Packages outside the repository (client-go, google/btree, ants, gzip, the Consul and
  Nacos clients) are parameters; what is assumed of them is stated as laws of a locale
  or as hypotheses, and every such property has a witness.

  \<^bold>\<open>What is shown.\<close>  The ledger of a sink never goes back and a full push tombstones only what
  it may (\<open>Ordered_Sink\<close>); failures of one sink do not touch another (\<open>Fanout\<close>); no queued
  update is lost (\<open>Retry_Queue\<close>, \<open>Overflow_Queue\<close>, \<open>K8s_Robot\<close>); a failed event is queued for exactly the sinks
  that failed (\<open>Event_Worker\<close>); the cache refines a map (\<open>Provider_Common\<close>); conversion follows
  the domain policy and keeps identities apart (\<open>K8s_Convert\<close>, \<open>Consul_Convert\<close>); a comparison
  sends exactly the drift and only current state (\<open>K8s_Provider\<close>); payloads and
  registrations read back (\<open>Canonical_Payload\<close>, \<open>Nacos_Wire\<close>); a prune deletes only what this
  program owns and no longer wants (\<open>Nacos_Sink\<close>); a change seen by the watch reaches the
  handlers (\<open>Consul_Source\<close>); and below, across provider and worker, an empty Kubernetes
  snapshot is inert until it is the third in a row.  Some theorems show where the code
  falls short of its comments.

  \<^bold>\<open>Bounds and fuel.\<close>  The JSON parser and the string scanner take the length of the text as
  fuel, which \<open>parse_json_text\<close> shows to be enough on every text that the encoder writes;
  the shortest decimal of a float32 is searched among the decimal exponents from 39 down to
  -150, where \<open>f32_shortest_sound\<close> finds one.
  All other loops are structural.

  \<^bold>\<open>Not modelled.\<close>  The loop of the Consul provider (consul.go), the Nacos transports (client.go,
  sdk.go, nacos3_grpc.go), leader election, server start-up, configuration, logging,
  metrics, notices, the discovery-center client and the test kits: network input and
  output, wiring, or code the modelled parts do not call.  Of the Nacos sink the push
  limiter and the wait for a running health-check call are left out.
\<close>

section \<open>Empty snapshots from the provider to the sinks\<close>

lemma k8s_events_scoped:
  "k8s_step env s s' \<Longrightarrow> \<forall>e \<in> set (snd s). ev_Scope e = ''k8s'' \<Longrightarrow> \<forall>e \<in> set (snd s'). ev_Scope e = ''k8s''"
  by (induction rule: k8s_step.induct)
    (auto simp: k8s_emitSyncAll_def zero_Event_def Let_def split: prod.splits)

lemma k8s_events_scoped_reachable:
  "(k8s_step env)\<^sup>*\<^sup>* (k, []) s \<Longrightarrow> \<forall>e \<in> set (snd s). ev_Scope e = ''k8s''"
proof (induction rule: rtranclp_induct)
  case (step y z)
  then show ?case using k8s_events_scoped by blast
qed simp

text \<open>C5: In every run of the Kubernetes provider, whatever pods and comparisons come in
  between, an empty full-push event changes nothing when the worker handles it, no
  sink and no queue, unless the two full pushes before it were empty as well.\<close>

theorem k8s_empty_snapshot_needs_three:
  assumes "(k8s_step env)\<^sup>*\<^sup>* (k, []) (k', es)" and "k_emptyConfirmations k = 0"
    and "n < length es" and "ev_Data (es ! n) = []"
  shows "(2 \<le> n \<and> ev_Data (es ! (n - 1)) = [] \<and> ev_Data (es ! (n - 2)) = [])
    \<or> handle_sync_all now1 now2 clock (es ! n) u = (None, u)"
proof (cases "ev_EmptyConfirmed (es ! n)")
  case True
  have "3 \<le> trailing_empty (take (Suc n) es)"
    using confirmed_inv_reachable [OF assms(1,2)] True assms(3) by (simp add: confirmed_inv_def)
  then obtain pre a b c where p: "take (Suc n) es = pre @ [a, b, c]" "ev_Data a = []" "ev_Data b = []"
    using trailing_empty_last by blast
  have "length (take (Suc n) es) = length pre + 3" unfolding p(1) by simp
  then have n: "n = length pre + 2" using assms(3) by simp
  then have "es ! (n - 1) = b" "es ! (n - 2) = a"
    using p(1) nth_take [of "n - 1" "Suc n" es] nth_take [of "n - 2" "Suc n" es] by (simp_all add: nth_append)
  then show ?thesis using p n by simp
next
  case False
  have "ev_Scope (es ! n) = ''k8s''"
    using k8s_events_scoped_reachable [OF assms(1)] nth_mem [OF assms(3)] by simp
  then show ?thesis using False assms(4) by (simp add: handle_sync_all_def)
qed

theorem k8s_empty_snapshot_needs_three_witness:
  "\<exists>e k'. (k8s_step sample_k8s_env)\<^sup>*\<^sup>* (sample_k8s [], []) (k', [e])
     \<and> handle_sync_all (\<lambda>_. 0) (\<lambda>_. 1) 10 e sample_service = (None, sample_service)"
proof -
  obtain e k' where e: "k8s_emitSyncAll sample_k8s_env 9 (\<lambda>_. sample_k8s []) (sample_k8s []) = (e, k')" by fastforce
  have "k8s_step sample_k8s_env (sample_k8s [], []) (k', [] @ [e])" by (rule k8s_step.pushed [OF e])
  then have r: "(k8s_step sample_k8s_env)\<^sup>*\<^sup>* (sample_k8s [], []) (k', [e])" by auto
  have "ev_Data e = []"
    using e by (auto simp: k8s_emitSyncAll_def k8s_snapshotForFullPushMode_def active_def cache_List_def sample_k8s_defs Let_def zero_Event_def)
  then show ?thesis
    using k8s_empty_snapshot_needs_three [OF r, of 0 "\<lambda>_. 0" "\<lambda>_. 1" 10 sample_service] r by (auto simp: sample_k8s_def)
qed

end
